theory Spec2Isabelle
  imports Main "HOL-Library.Sublist"
begin

section \<open>Strings, errors and the POSIX path functions the code calls\<close>

text \<open>
  JavaScript strings are modelled as \<open>string\<close>, a path being the list of its
  characters (of its bytes, where it is not ASCII); \<open>startsWith\<close> and \<open>endsWith\<close>
  are \<open>prefix\<close> and \<open>suffix\<close>. The path functions are those of POSIX
  (\<^verbatim>\<open>path.sep\<close> is \<^verbatim>\<open>/\<close>). A thrown \<^verbatim>\<open>Error\<close> is a record of its optional
  \<^verbatim>\<open>code\<close> and its \<^verbatim>\<open>message\<close>; a function that may throw returns
  \<open>js_error + 'a\<close>, \<open>Inl\<close> being the throw.
\<close>

record js_error =
  err_code :: "string option"
  err_message :: string

definition new_Error :: "string \<Rightarrow> js_error" where
  "new_Error msg = \<lparr>err_code = None, err_message = msg\<rparr>"

text \<open>\<^verbatim>\<open>str.split('/')\<close>: the pieces between separators, empty pieces included.\<close>

fun split_sep :: "string \<Rightarrow> string list" where
  "split_sep [] = [[]]"
| "split_sep (c # cs) =
     (if c = CHR ''/'' then [] # split_sep cs
      else (case split_sep cs of s # ss \<Rightarrow> (c # s) # ss | [] \<Rightarrow> [[c]]))"

text \<open>\<^verbatim>\<open>segments.join('/')\<close>.\<close>

fun join_sep :: "string list \<Rightarrow> string" where
  "join_sep [] = []"
| "join_sep [s] = s"
| "join_sep (s # t # ss) = s @ CHR ''/'' # join_sep (t # ss)"

text \<open>
  Node's \<^verbatim>\<open>normalizeString(path, allowAboveRoot)\<close> of \<^verbatim>\<open>lib/path.js\<close>, which
  \<^verbatim>\<open>path.resolve\<close>, \<^verbatim>\<open>path.normalize\<close> and \<^verbatim>\<open>path.join\<close> share. It reads the path
  segment by segment: an empty segment and \<^verbatim>\<open>.\<close> are dropped, \<^verbatim>\<open>..\<close> removes the
  last kept segment (unless that is itself \<^verbatim>\<open>..\<close>, or nothing is kept: then \<^verbatim>\<open>..\<close> is
  kept when \<open>allowAboveRoot\<close> and dropped otherwise), any other segment is kept. The
  kept segments are held as a stack, last segment first.
\<close>

fun normalize_step :: "bool \<Rightarrow> string list \<Rightarrow> string \<Rightarrow> string list" where
  "normalize_step allowAboveRoot stack seg =
     (if seg = [] \<or> seg = ''.'' then stack
      else if seg = ''..'' then
        (case stack of
           [] \<Rightarrow> if allowAboveRoot then [seg] else []
         | lastSeg # below \<Rightarrow>
             if lastSeg = ''..'' then (if allowAboveRoot then seg # stack else stack)
             else below)
      else seg # stack)"

definition normalizeString :: "string \<Rightarrow> bool \<Rightarrow> string" where
  "normalizeString path allowAboveRoot =
     join_sep (rev (foldl (normalize_step allowAboveRoot) [] (split_sep path)))"

definition isAbsolute :: "string \<Rightarrow> bool" where
  "isAbsolute p \<longleftrightarrow> (case p of [] \<Rightarrow> False | c # _ \<Rightarrow> c = CHR ''/'')"

text \<open>
  \<^verbatim>\<open>path.resolve(p)\<close> with one argument. Node walks the arguments from the right
  and then the working directory, skipping empty strings, until the path built so far
  is absolute; \<open>cwd\<close> is \<^verbatim>\<open>process.cwd()\<close>.
\<close>

definition resolve :: "string \<Rightarrow> string \<Rightarrow> string" where
  "resolve cwd p =
     (let fromArg = (if p = [] then [] else p @ ''/'');
          argAbsolute = isAbsolute p;
          resolvedPath =
            (if argAbsolute \<or> cwd = [] then fromArg else cwd @ ''/'' @ fromArg);
          resolvedAbsolute = (argAbsolute \<or> isAbsolute cwd);
          norm = normalizeString resolvedPath (\<not> resolvedAbsolute)
      in if resolvedAbsolute then CHR ''/'' # norm
         else if norm \<noteq> [] then norm else ''.'')"

text \<open>\<^verbatim>\<open>path.normalize(p)\<close> and \<^verbatim>\<open>path.join(a, b)\<close>.\<close>

definition normalize :: "string \<Rightarrow> string" where
  "normalize p =
     (if p = [] then ''.''
      else
        let absolute = isAbsolute p;
            trailingSeparator = (last p = CHR ''/'');
            norm = normalizeString p (\<not> absolute)
        in if norm = [] then
             (if absolute then ''/'' else if trailingSeparator then ''./'' else ''.'')
           else
             (let norm' = (if trailingSeparator then norm @ ''/'' else norm)
              in if absolute then CHR ''/'' # norm' else norm'))"

definition join :: "string \<Rightarrow> string \<Rightarrow> string" where
  "join a b =
     (let joined = (if a = [] then b else if b = [] then a else a @ ''/'' @ b)
      in if joined = [] then ''.'' else normalize joined)"

text \<open>
  \<^verbatim>\<open>path.basename(p)\<close>: the last segment once trailing separators are dropped.
\<close>

definition basename :: "string \<Rightarrow> string" where
  "basename p =
     rev (takeWhile (\<lambda>c. c \<noteq> CHR ''/'') (dropWhile (\<lambda>c. c = CHR ''/'') (rev p)))"

text \<open>
  \<^verbatim>\<open>path.dirname(p)\<close>: Node scans from the end down to index 1, skips trailing
  separators and the last segment, and cuts at the separator before it.
\<close>

definition dirname :: "string \<Rightarrow> string" where
  "dirname p =
     (case p of
        [] \<Rightarrow> ''.''
      | c # rest \<Rightarrow>
          let hasRoot = (c = CHR ''/'');
              upto = dropWhile (\<lambda>c. c \<noteq> CHR ''/'')
                       (dropWhile (\<lambda>c. c = CHR ''/'') (rev rest));
              cut = length upto
          in if upto = [] then (if hasRoot then ''/'' else ''.'')
             else if hasRoot \<and> cut = 1 then ''//''
             else take cut p)"

section \<open>The deletion safety gate (\<^verbatim>\<open>safeDelete.js\<close>)\<close>

text \<open>
  \<^verbatim>\<open>os.homedir()\<close> and \<^verbatim>\<open>process.cwd()\<close> are read from the environment; they are
  the parameters \<open>homedir\<close> and \<open>cwd\<close>.
\<close>

definition getProtectedPaths :: "string \<Rightarrow> string \<Rightarrow> string list" where
  "getProtectedPaths cwd homedir =
     map (resolve cwd)
       [homedir,
        join homedir ''Desktop'',
        join homedir ''Documents'',
        join homedir ''Downloads'',
        join homedir ''.ssh'',
        join homedir ''Library'']"

definition invalid_path_error :: js_error where
  "invalid_path_error = new_Error ''Invalid path for deletion''"

definition outside_home_error :: js_error where
  "outside_home_error = new_Error ''Can only delete within home directory''"

definition protected_directory_error :: "string \<Rightarrow> js_error" where
  "protected_directory_error dirPath =
     new_Error (''Cannot delete protected directory: '' @ dirPath)"

definition validatePathForDeletion :: "string \<Rightarrow> string \<Rightarrow> string \<Rightarrow> js_error + unit" where
  "validatePathForDeletion cwd homedir dirPath =
     (if dirPath = [] \<or> dirPath = ''/'' then Inl invalid_path_error
      else
        let resolved = resolve cwd dirPath;
            home = resolve cwd homedir
        in if \<not> prefix home resolved \<or> resolved = home then Inl outside_home_error
           else
             let protectedPaths = filter (\<lambda>p. p \<noteq> home) (getProtectedPaths cwd homedir)
             in if list_ex (\<lambda>p. resolved = p) protectedPaths
                then Inl (protected_directory_error dirPath)
                else Inr ())"

section \<open>The cleanup executor (\<^verbatim>\<open>cleaner/index.js\<close>, \<^verbatim>\<open>safeDelete\<close>)\<close>

text \<open>
  \<^verbatim>\<open>lastModifiedDays\<close> is a JavaScript number: an integer or \<^verbatim>\<open>Infinity\<close>.
\<close>

datatype days = Days int | Infinity

text \<open>
  An item of a selection, with the fields the cleaner reads. \<^verbatim>\<open>size\<close> and
  \<^verbatim>\<open>lastModifiedDays\<close> may be missing (\<^verbatim>\<open>undefined\<close>), which is \<open>None\<close>; sizes are
  byte counts. A selection's \<^verbatim>\<open>items\<close> may be missing too.
\<close>

record scan_item =
  item_path :: string
  item_size :: "nat option"
  item_lastModifiedDays :: "days option"

record selection =
  sel_type :: string
  sel_items :: "scan_item list option"

text \<open>An entry of the \<^verbatim>\<open>byPath\<close> map: \<^verbatim>\<open>size\<close> is \<^verbatim>\<open>item.size || 0\<close>.\<close>

record cleanup_item =
  ci_path :: string
  ci_size :: nat
  ci_lastModifiedDays :: "days option"

definition size_or_zero :: "nat option \<Rightarrow> nat" where
  "size_or_zero s = (case s of None \<Rightarrow> 0 | Some n \<Rightarrow> n)"

text \<open>
  The \<^verbatim>\<open>Map\<close> keeps its entries in insertion order, and
  \<^verbatim>\<open>Array.from(byPath.values())\<close> returns them in that order: it is a list of entries,
  \<^verbatim>\<open>byPath.has(p)\<close> a search of their paths.
\<close>

definition dedupe_add :: "cleanup_item list \<Rightarrow> scan_item \<Rightarrow> cleanup_item list" where
  "dedupe_add byPath item =
     (let p = item_path item
      in if p \<in> set (map ci_path byPath) then byPath
         else byPath @ [\<lparr>ci_path = p,
                          ci_size = size_or_zero (item_size item),
                          ci_lastModifiedDays = item_lastModifiedDays item\<rparr>])"

definition dedupe_selection :: "cleanup_item list \<Rightarrow> selection \<Rightarrow> cleanup_item list" where
  "dedupe_selection byPath sel =
     (case sel_items sel of
        None \<Rightarrow> byPath
      | Some its \<Rightarrow> foldl dedupe_add byPath its)"

definition flattenAndDedupe :: "selection list \<Rightarrow> cleanup_item list" where
  "flattenAndDedupe selections = foldl dedupe_selection [] selections"

text \<open>
  The trash primitive is an external collaborator that changes the filesystem. It is
  a parameter: a function from the state of the world and the path to its outcome and
  the new state of the world. The type of the world is left open, so that a theorem
  about every \<open>trash\<close> covers one that counts its calls.
\<close>

type_synonym 'w trash_fn = "'w \<Rightarrow> string \<Rightarrow> (js_error + unit) \<times> 'w"

definition safeDelete ::
  "'w trash_fn \<Rightarrow> string \<Rightarrow> string \<Rightarrow> string \<Rightarrow> bool \<Rightarrow> 'w \<Rightarrow> (js_error + unit) \<times> 'w" where
  "safeDelete trash cwd homedir dirPath dryRun w =
     (case validatePathForDeletion cwd homedir dirPath of
        Inl e \<Rightarrow> (Inl e, w)
      | Inr _ \<Rightarrow>
          let resolved = resolve cwd dirPath
          in if dryRun then (Inr (), w)
             else
               (case trash w resolved of
                  (Inr _, w') \<Rightarrow> (Inr (), w')
                | (Inl err, w') \<Rightarrow>
                    if err_code err = Some ''EACCES''
                    then (Inl (new_Error (''Permission denied: '' @ dirPath)), w')
                    else if err_code err = Some ''ENOENT'' then (Inr (), w')
                    else (Inl err, w')))"

text \<open>A per-item outcome; a failure carries no \<^verbatim>\<open>size\<close>, a success no \<^verbatim>\<open>error\<close>.\<close>

record deletion_outcome =
  out_path :: string
  out_size :: "nat option"
  out_success :: bool
  out_error :: "string option"

definition success_outcome :: "cleanup_item \<Rightarrow> deletion_outcome" where
  "success_outcome item =
     \<lparr>out_path = ci_path item, out_size = Some (ci_size item),
      out_success = True, out_error = None\<rparr>"

definition failure_outcome :: "cleanup_item \<Rightarrow> js_error \<Rightarrow> deletion_outcome" where
  "failure_outcome item error =
     \<lparr>out_path = ci_path item, out_size = None,
      out_success = False, out_error = Some (err_message error)\<rparr>"

text \<open>
  The body of the \<^verbatim>\<open>for (const item of items)\<close> loop of \<^verbatim>\<open>performCleanup\<close>, on
  the loop's variables \<^verbatim>\<open>totalFreed\<close> and \<^verbatim>\<open>results\<close> and the world. The dry-run
  branch logs and accounts; it does not call \<^verbatim>\<open>safeDelete\<close>. The logger's output is
  not modelled. Sizes are byte counts and are added exactly; the code adds JavaScript
  numbers, which gives the same sum as long as it stays below \<open>2\<^sup>5\<^sup>3\<close>.
\<close>

definition cleanup_step ::
  "'w trash_fn \<Rightarrow> string \<Rightarrow> string \<Rightarrow> bool \<Rightarrow> nat \<times> deletion_outcome list \<times> 'w \<Rightarrow> cleanup_item
     \<Rightarrow> nat \<times> deletion_outcome list \<times> 'w" where
  "cleanup_step trash cwd homedir dryRun st item =
     (case st of (totalFreed, results, w) \<Rightarrow>
        if dryRun then (totalFreed + ci_size item, results @ [success_outcome item], w)
        else
          (case safeDelete trash cwd homedir (ci_path item) False w of
             (Inr _, w') \<Rightarrow> (totalFreed + ci_size item, results @ [success_outcome item], w')
           | (Inl error, w') \<Rightarrow> (totalFreed, results @ [failure_outcome item error], w')))"

record cleanup_result =
  totalFreed :: nat
  results :: "deletion_outcome list"
  successCount :: nat
  failCount :: nat

definition performCleanup ::
  "'w trash_fn \<Rightarrow> string \<Rightarrow> string \<Rightarrow> selection list \<Rightarrow> bool \<Rightarrow> 'w \<Rightarrow> cleanup_result \<times> 'w" where
  "performCleanup trash cwd homedir selections dryRun w =
     (let items = flattenAndDedupe selections
      in case foldl (cleanup_step trash cwd homedir dryRun) (0, [], w) items of
           (freed, res, w') \<Rightarrow>
             (\<lparr>totalFreed = freed,
               results = res,
               successCount = length (filter (\<lambda>r. out_success r) res),
               failCount = length (filter (\<lambda>r. \<not> out_success r) res)\<rparr>, w'))"

section \<open>The filesystem as the scanners see it\<close>

text \<open>
  The code reaches the filesystem through \<^verbatim>\<open>fs.lstat\<close>, \<^verbatim>\<open>fs.stat\<close>, \<^verbatim>\<open>fs.readdir\<close>
  and \<^verbatim>\<open>fs.access\<close>, each on a path string; a filesystem is the record of what these
  answer. \<^verbatim>\<open>mtime\<close> is \<^verbatim>\<open>mtime.getTime()\<close>, in milliseconds. The recursive sum of
  \<^verbatim>\<open>getDirectorySize\<close> (and its cache) is represented by its outcome for each path.
\<close>

datatype file_kind = RegularFile | Directory | SymbolicLink | OtherKind

record stats =
  st_kind :: file_kind
  st_size :: nat
  st_mtime :: int

record filesystem =
  fs_lstat :: "string \<Rightarrow> js_error + stats"
  fs_stat :: "string \<Rightarrow> js_error + stats"
  fs_readdir :: "string \<Rightarrow> js_error + string list"
  fs_access :: "string \<Rightarrow> bool"
  getDirectorySize :: "string \<Rightarrow> js_error + nat"

definition getLastModified :: "filesystem \<Rightarrow> string \<Rightarrow> int option" where
  "getLastModified fs filePath =
     (case fs_stat fs filePath of Inl _ \<Rightarrow> None | Inr st \<Rightarrow> Some (st_mtime st))"

definition pathExists :: "filesystem \<Rightarrow> string \<Rightarrow> bool" where
  "pathExists fs filePath = fs_access fs filePath"

text \<open>
  \<^verbatim>\<open>BaseScanner.getMetadata\<close>; \<open>now\<close> is \<^verbatim>\<open>Date.now()\<close>. Both times are integers of
  milliseconds, and \<^verbatim>\<open>Math.floor\<close> of their quotient is \<open>div\<close> on \<open>int\<close>, which rounds
  down.
\<close>

record metadata =
  lastModified :: "int option"
  lastModifiedDays :: days

definition getMetadata :: "filesystem \<Rightarrow> int \<Rightarrow> string \<Rightarrow> metadata" where
  "getMetadata fs now dirPath =
     (case getLastModified fs dirPath of
        None \<Rightarrow> \<lparr>lastModified = None, lastModifiedDays = Infinity\<rparr>
      | Some mtime \<Rightarrow>
          \<lparr>lastModified = Some mtime,
           lastModifiedDays = Days ((now - mtime) div (24 * 60 * 60 * 1000))\<rparr>)"

definition calculateSize :: "filesystem \<Rightarrow> string \<Rightarrow> nat" where
  "calculateSize fs dirPath =
     (case getDirectorySize fs dirPath of Inl _ \<Rightarrow> 0 | Inr n \<Rightarrow> n)"

section \<open>The tree walker (\<^verbatim>\<open>utils/fileSystem.js\<close>) and the constants\<close>

definition IGNORE_DIRS :: "string list" where
  "IGNORE_DIRS =
     [''.Trash'', ''Library'', ''System'', ''.git'', ''.cache'', ''node_modules/node_modules'']"

definition MAX_SCAN_DEPTH :: nat where
  "MAX_SCAN_DEPTH = 5"


definition skippable :: "js_error \<Rightarrow> bool" where
  "skippable err \<longleftrightarrow> err_code err = Some ''EACCES'' \<or> err_code err = Some ''ENOENT''"

text \<open>
  \<^verbatim>\<open>walkDirectory\<close>'s inner \<^verbatim>\<open>walk(currentPath, depth)\<close> and its loop over the
  entries of a directory. The callback updates the caller's state, here the argument
  \<open>acc\<close>; a thrown error ends the walk. \<^verbatim>\<open>onEnterDir\<close> only reports progress, and
  what it throws is swallowed: it is left out. The recursion ends because the depth
  grows up to \<open>maxDepth\<close>, as in the code.
\<close>

function
  walk :: "filesystem \<Rightarrow> ('a \<Rightarrow> string \<Rightarrow> stats \<Rightarrow> 'a) \<Rightarrow> nat \<Rightarrow> string list \<Rightarrow> string list
             \<Rightarrow> string \<Rightarrow> nat \<Rightarrow> 'a \<Rightarrow> js_error + 'a"
and
  walk_entries :: "filesystem \<Rightarrow> ('a \<Rightarrow> string \<Rightarrow> stats \<Rightarrow> 'a) \<Rightarrow> nat \<Rightarrow> string list \<Rightarrow> string list
             \<Rightarrow> string \<Rightarrow> string list \<Rightarrow> nat \<Rightarrow> 'a \<Rightarrow> js_error + 'a"
where
  "walk fs callback maxDepth ignoreDirs skipDescendingInto currentPath depth acc =
     (if depth > maxDepth then Inr acc
      else
        (case fs_lstat fs currentPath of
           Inl err \<Rightarrow> if skippable err then Inr acc else Inl err
         | Inr st \<Rightarrow>
             if st_kind st = SymbolicLink then Inr acc
             else if st_kind st = RegularFile then Inr (callback acc currentPath st)
             else if st_kind st \<noteq> Directory then Inr acc
             else if list_ex (\<lambda>ignore. basename currentPath = ignore \<or> suffix ignore currentPath)
                       ignoreDirs
             then Inr acc
             else if basename currentPath \<in> set skipDescendingInto
             then Inr (callback acc currentPath st)
             else
               (case fs_readdir fs currentPath of
                  Inl err \<Rightarrow>
                    if skippable err then Inr (callback acc currentPath st) else Inl err
                | Inr entries \<Rightarrow>
                    walk_entries fs callback maxDepth ignoreDirs skipDescendingInto
                      currentPath entries (depth + 1) (callback acc currentPath st))))"
| "walk_entries fs callback maxDepth ignoreDirs skipDescendingInto currentPath [] depth acc =
     Inr acc"
| "walk_entries fs callback maxDepth ignoreDirs skipDescendingInto currentPath (entry # entries)
     depth acc =
     (case walk fs callback maxDepth ignoreDirs skipDescendingInto (join currentPath entry)
             depth acc of
        Inl err \<Rightarrow> Inl err
      | Inr acc' \<Rightarrow>
          walk_entries fs callback maxDepth ignoreDirs skipDescendingInto currentPath entries
            depth acc')"
  by pat_completeness auto
termination
  by (relation "inv_image (less_than <*lex*> less_than)
        (\<lambda>x. case x of
           Inl (fs, callback, maxDepth, ignoreDirs, skipDescendingInto, currentPath, depth, acc) \<Rightarrow>
             (maxDepth + 2 - depth, 0)
         | Inr (fs, callback, maxDepth, ignoreDirs, skipDescendingInto, currentPath, entries,
                depth, acc) \<Rightarrow>
             (maxDepth + 2 - depth, Suc (length entries)))")
     auto

definition walkDirectory ::
  "filesystem \<Rightarrow> string \<Rightarrow> ('a \<Rightarrow> string \<Rightarrow> stats \<Rightarrow> 'a) \<Rightarrow> nat \<Rightarrow> string list \<Rightarrow> string list
     \<Rightarrow> 'a \<Rightarrow> js_error + 'a" where
  "walkDirectory fs dirPath callback maxDepth ignoreDirs skipDescendingInto acc =
     walk fs callback maxDepth ignoreDirs skipDescendingInto dirPath 0 acc"

section \<open>The scanners\<close>

text \<open>
  \<^verbatim>\<open>BaseScanner.findDirectories\<close>: the callback pushes onto \<^verbatim>\<open>found\<close> every
  directory whose base name is the target.
\<close>

definition found_callback :: "string \<Rightarrow> string list \<Rightarrow> string \<Rightarrow> stats \<Rightarrow> string list" where
  "found_callback targetName found filePath st =
     (if st_kind st = Directory \<and> basename filePath = targetName then found @ [filePath]
      else found)"

definition findDirectories ::
  "filesystem \<Rightarrow> nat \<Rightarrow> string list \<Rightarrow> string \<Rightarrow> string \<Rightarrow> string list \<Rightarrow> js_error + string list" where
  "findDirectories fs maxDepth ignorePatterns startPath targetName skipDescendingInto =
     walkDirectory fs startPath (found_callback targetName) maxDepth ignorePatterns
       skipDescendingInto []"

text \<open>
  The result of a scan. Of an item, the path, the size and the age are kept, and the
  \<^verbatim>\<open>isDerivedData\<close> mark of the Xcode scanner; the formatted strings and the name of
  the parent project, which only the display reads, are left out.
\<close>

record found_item =
  fi_path :: string
  fi_size :: nat
  fi_lastModifiedDays :: days
  fi_isDerivedData :: bool

record scan_result =
  sr_type :: string
  sr_items :: "found_item list"
  sr_totalSize :: nat
  sr_count :: nat

definition make_item :: "filesystem \<Rightarrow> int \<Rightarrow> bool \<Rightarrow> string \<Rightarrow> found_item" where
  "make_item fs now derived dir =
     \<lparr>fi_path = dir,
      fi_size = calculateSize fs dir,
      fi_lastModifiedDays = lastModifiedDays (getMetadata fs now dir),
      fi_isDerivedData = derived\<rparr>"

definition make_result :: "string \<Rightarrow> found_item list \<Rightarrow> scan_result" where
  "make_result type its =
     \<lparr>sr_type = type,
      sr_items = its,
      sr_totalSize = foldl (\<lambda>sum item. sum + fi_size item) 0 its,
      sr_count = length its\<rparr>"


text \<open>
  \<^verbatim>\<open>XcodeScanner\<close>. The scanner object carries \<^verbatim>\<open>globalScanned\<close> and \<^verbatim>\<open>homeDir\<close>
  beside the fields of \<^verbatim>\<open>BaseScanner\<close>; \<^verbatim>\<open>new XcodeScanner()\<close> takes the defaults.
\<close>

record xcode_scanner =
  xs_maxDepth :: nat
  xs_ignorePatterns :: "string list"
  xs_globalScanned :: bool
  xs_homeDir :: string

definition new_XcodeScanner :: "string \<Rightarrow> xcode_scanner" where
  "new_XcodeScanner homedir =
     \<lparr>xs_maxDepth = MAX_SCAN_DEPTH, xs_ignorePatterns = IGNORE_DIRS,
      xs_globalScanned = False, xs_homeDir = homedir\<rparr>"

definition derivedDataPath :: "xcode_scanner \<Rightarrow> string" where
  "derivedDataPath scanner = join (xs_homeDir scanner) ''Library/Developer/Xcode/DerivedData''"

text \<open>
  \<^verbatim>\<open>scan\<close> is an \<^verbatim>\<open>async\<close> function. A call runs without interruption up to its
  first \<^verbatim>\<open>await\<close> and is resumed later; other code runs in between. In
  \<^verbatim>\<open>if (!this.globalScanned && await pathExists(derivedDataPath))\<close> the flag is read
  before that first \<^verbatim>\<open>await\<close> (when the flag is already set, the first \<^verbatim>\<open>await\<close> is
  the one inside \<^verbatim>\<open>findDirectories\<close>), and nothing is written before it. So a call is
  two steps: \<open>xcode_scan_start\<close> reads the flag, and \<open>xcode_scan_resume\<close> does the rest
  with what was read. The filesystem does not change during a scan.
\<close>

definition xcode_scan_start :: "xcode_scanner \<Rightarrow> bool" where
  "xcode_scan_start scanner = (\<not> xs_globalScanned scanner)"

text \<open>
  The entries of \<^verbatim>\<open>readdirSync(derivedDataPath, {withFileTypes: true})\<close>:
  \<^verbatim>\<open>entry.isDirectory()\<close> is what \<^verbatim>\<open>lstat\<close> says of the entry; a failure to list is
  caught and leaves no item.
\<close>

definition derivedData_items :: "filesystem \<Rightarrow> int \<Rightarrow> string \<Rightarrow> found_item list" where
  "derivedData_items fs now ddPath =
     (case fs_readdir fs ddPath of
        Inl _ \<Rightarrow> []
      | Inr entries \<Rightarrow>
          map (\<lambda>name. make_item fs now True (join ddPath name))
            (filter (\<lambda>name. case fs_lstat fs (join ddPath name) of
                               Inl _ \<Rightarrow> False
                             | Inr st \<Rightarrow> st_kind st = Directory)
               entries))"

definition isXcodeProject :: "filesystem \<Rightarrow> string \<Rightarrow> bool" where
  "isXcodeProject fs parentDir =
     (case fs_readdir fs parentDir of
        Inl _ \<Rightarrow> False
      | Inr parentFiles \<Rightarrow>
          list_ex (\<lambda>f. suffix ''.xcodeproj'' f \<or> suffix ''.xcworkspace'' f) parentFiles)"

definition xcode_scan_resume ::
  "filesystem \<Rightarrow> int \<Rightarrow> string \<Rightarrow> bool \<Rightarrow> xcode_scanner \<Rightarrow> (js_error + scan_result) \<times> xcode_scanner" where
  "xcode_scan_resume fs now basePath flagWasClear scanner =
     (let ddPath = derivedDataPath scanner;
          scanGlobal = (flagWasClear \<and> pathExists fs ddPath);
          scanner' = (if scanGlobal then scanner\<lparr>xs_globalScanned := True\<rparr> else scanner);
          globalItems = (if scanGlobal then derivedData_items fs now ddPath else [])
      in case findDirectories fs (xs_maxDepth scanner) (xs_ignorePatterns scanner) basePath
                ''build'' [''build''] of
           Inl err \<Rightarrow> (Inl err, scanner')
         | Inr buildDirs \<Rightarrow>
             let localDirs =
                   filter (\<lambda>dir. \<not> prefix ddPath dir \<and> isXcodeProject fs (dirname dir)) buildDirs
             in (Inr (make_result ''xcode_build''
                        (globalItems @ map (make_item fs now False) localDirs)),
                 scanner'))"

text \<open>One call of \<^verbatim>\<open>scan\<close> that is awaited before anything else touches the scanner.\<close>

definition xcode_scan ::
  "filesystem \<Rightarrow> int \<Rightarrow> string \<Rightarrow> xcode_scanner \<Rightarrow> (js_error + scan_result) \<times> xcode_scanner" where
  "xcode_scan fs now basePath scanner =
     xcode_scan_resume fs now basePath (xcode_scan_start scanner) scanner"

section \<open>The orchestrator (\<^verbatim>\<open>scanners/index.js\<close>)\<close>

definition empty_result :: scan_result where
  "empty_result = \<lparr>sr_type = [], sr_items = [], sr_totalSize = 0, sr_count = 0\<rparr>"

definition mergeResults :: "scan_result list \<Rightarrow> string \<Rightarrow> scan_result" where
  "mergeResults rs type = make_result type (concat (map sr_items rs))"

text \<open>
  \<^verbatim>\<open>runAllScans\<close> for the registry entry of \<^verbatim>\<open>XcodeScanner\<close> (\<^verbatim>\<open>isGlobal: false\<close>):
  one scanner object, and
  \<^verbatim>\<open>Promise.all(paths.map((p) => scanner.scan(p, scanOpts).catch(...)))\<close>. The
  \<^verbatim>\<open>map\<close> calls \<^verbatim>\<open>scan\<close> for every path before any of the calls is resumed, so every
  call is started on the scanner as it was created; the calls are then resumed, each
  on the scanner the others have left. A call that throws counts as an empty result.
\<close>

definition resume_all ::
  "filesystem \<Rightarrow> int \<Rightarrow> (string \<times> bool) list \<Rightarrow> xcode_scanner \<Rightarrow> scan_result list \<times> xcode_scanner" where
  "resume_all fs now started scanner =
     foldl (\<lambda>(rs, sc) (p, flagWasClear).
              case xcode_scan_resume fs now p flagWasClear sc of
                (Inl _, sc') \<Rightarrow> (rs @ [empty_result], sc')
              | (Inr r, sc') \<Rightarrow> (rs @ [r], sc'))
       ([], scanner) started"

definition runAllScans_xcode :: "filesystem \<Rightarrow> int \<Rightarrow> string \<Rightarrow> string list \<Rightarrow> scan_result" where
  "runAllScans_xcode fs now homedir paths =
     (let scanner = new_XcodeScanner homedir;
          started = map (\<lambda>p. (p, xcode_scan_start scanner)) paths;
          pathResults = fst (resume_all fs now started scanner)
      in mergeResults pathResults ''xcode_build'')"

section \<open>Notions the properties are stated with\<close>

text \<open>The items of all selections in selection order, before deduplication.\<close>

definition all_items :: "selection list \<Rightarrow> scan_item list" where
  "all_items selections =
     concat (map (\<lambda>sel. case sel_items sel of None \<Rightarrow> [] | Some its \<Rightarrow> its) selections)"

definition entry_of :: "scan_item \<Rightarrow> cleanup_item" where
  "entry_of item =
     \<lparr>ci_path = item_path item, ci_size = size_or_zero (item_size item),
      ci_lastModifiedDays = item_lastModifiedDays item\<rparr>"

text \<open>
  The state of the world when a real cleanup reaches the item of index \<open>i\<close>: the
  world the loop has produced from the items before it.
\<close>

definition world_before ::
  "'w trash_fn \<Rightarrow> string \<Rightarrow> string \<Rightarrow> cleanup_item list \<Rightarrow> nat \<Rightarrow> 'w \<Rightarrow> 'w" where
  "world_before trash cwd homedir items i w =
     snd (snd (foldl (cleanup_step trash cwd homedir False) (0, [], w) (take i items)))"

text \<open>
  A segment that normalisation keeps as it is; the entry \<open>name\<close> of the directory
  \<open>dir\<close>; and a path that lies strictly below the directory \<open>dir\<close>, both being
  absolute and normalised: it continues \<open>dir\<close> beyond a separator.
\<close>

definition clean_segment :: "string \<Rightarrow> bool" where
  "clean_segment s \<longleftrightarrow> s \<noteq> [] \<and> s \<noteq> ''.'' \<and> s \<noteq> ''..'' \<and> CHR ''/'' \<notin> set s"

definition child :: "string \<Rightarrow> string \<Rightarrow> string" where
  "child dir name = (if dir = ''/'' then dir @ name else dir @ ''/'' @ name)"

definition strictly_under :: "string \<Rightarrow> string \<Rightarrow> bool" where
  "strictly_under dir p \<longleftrightarrow> strict_prefix (if dir = ''/'' then dir else dir @ ''/'') p"

definition protected_names :: "string list" where
  "protected_names = [''Desktop'', ''Documents'', ''Downloads'', ''.ssh'', ''Library'']"

text \<open>The segments an absolute path keeps under normalisation.\<close>

definition kept :: "string \<Rightarrow> string list" where
  "kept p = rev (foldl (normalize_step False) [] (split_sep p))"



text \<open>
  What a call of \<^verbatim>\<open>scan\<close> that was started with the flag clear contributes to the
  merged result: its result, or the empty result when it throws.
\<close>

definition scan_started_clear :: "filesystem \<Rightarrow> int \<Rightarrow> xcode_scanner \<Rightarrow> string \<Rightarrow> scan_result" where
  "scan_started_clear fs now scanner p =
     (case fst (xcode_scan_resume fs now p True scanner) of
        Inl _ \<Rightarrow> empty_result
      | Inr r \<Rightarrow> r)"

section \<open>Example inputs\<close>

definition example_cwd :: string where
  "example_cwd = ''/home/testuser/work''"

definition example_home :: string where
  "example_home = ''/home/testuser''"

text \<open>
  Two overlapping selections: the second repeats both paths of the first, with another
  size for one of them, and adds a third path.
\<close>

definition overlapping_selections :: "selection list" where
  "overlapping_selections =
     [\<lparr>sel_type = ''node_modules'',
       sel_items = Some
         [\<lparr>item_path = ''/home/testuser/a/node_modules'', item_size = Some 10,
           item_lastModifiedDays = Some (Days 200)\<rparr>,
          \<lparr>item_path = ''/home/testuser/b/node_modules'', item_size = None,
           item_lastModifiedDays = Some Infinity\<rparr>]\<rparr>,
      \<lparr>sel_type = ''node_modules'', sel_items = None\<rparr>,
      \<lparr>sel_type = ''node_modules'',
       sel_items = Some
         [\<lparr>item_path = ''/home/testuser/a/node_modules'', item_size = Some 999,
           item_lastModifiedDays = Some (Days 1)\<rparr>,
          \<lparr>item_path = ''/home/testuser/b/node_modules'', item_size = Some 20,
           item_lastModifiedDays = None\<rparr>,
          \<lparr>item_path = ''/home/testuser/c/node_modules'', item_size = Some 30,
           item_lastModifiedDays = Some (Days 3)\<rparr>]\<rparr>]"

text \<open>A selection of a path outside the home directory.\<close>

definition outside_selections :: "selection list" where
  "outside_selections =
     [\<lparr>sel_type = ''node_modules'',
       sel_items = Some
         [\<lparr>item_path = ''/etc/foo'', item_size = Some 7,
           item_lastModifiedDays = Some (Days 1)\<rparr>]\<rparr>]"

text \<open>
  A trash primitive whose world is the list of the paths it was called with. It fails
  with \<^verbatim>\<open>EACCES\<close> on one path, with \<^verbatim>\<open>ENOENT\<close> on a second and with an error
  without code on a third, and succeeds on any other path.
\<close>

definition logging_trash :: "string list trash_fn" where
  "logging_trash w p =
     (if p = ''/home/testuser/a/node_modules''
      then Inl \<lparr>err_code = Some ''EACCES'', err_message = ''access denied''\<rparr>
      else if p = ''/home/testuser/b/node_modules''
      then Inl \<lparr>err_code = Some ''ENOENT'', err_message = ''not found''\<rparr>
      else if p = ''/home/testuser/c/node_modules''
      then Inl \<lparr>err_code = None, err_message = ''unknown error''\<rparr>
      else Inr (),
      w @ [p])"

text \<open>
  A filesystem that holds only directories: a table from the path of each directory
  to its entries. Any other path does not exist.
\<close>

definition enoent :: js_error where
  "enoent = \<lparr>err_code = Some ''ENOENT'', err_message = ''no such file or directory''\<rparr>"

definition directory_stats :: "int \<Rightarrow> stats" where
  "directory_stats mtime = \<lparr>st_kind = Directory, st_size = 4096, st_mtime = mtime\<rparr>"

definition directories_fs :: "int \<Rightarrow> (string \<times> string list) list \<Rightarrow> filesystem" where
  "directories_fs mtime table =
     \<lparr>fs_lstat = (\<lambda>p. if p \<in> set (map fst table) then Inr (directory_stats mtime) else Inl enoent),
      fs_stat = (\<lambda>p. if p \<in> set (map fst table) then Inr (directory_stats mtime) else Inl enoent),
      fs_readdir = (\<lambda>p. case map_of table p of None \<Rightarrow> Inl enoent | Some entries \<Rightarrow> Inr entries),
      fs_access = (\<lambda>p. p \<in> set (map fst table)),
      getDirectorySize = (\<lambda>p. if p \<in> set (map fst table) then Inr 2048 else Inl enoent)\<rparr>"

text \<open>A project whose \<^verbatim>\<open>node_modules\<close> holds a package with its own \<^verbatim>\<open>node_modules\<close>.\<close>

definition nested_fs :: filesystem where
  "nested_fs = directories_fs 1700000000000
     [(''/home/testuser'', [''proj'']),
      (''/home/testuser/proj'', [''node_modules'']),
      (''/home/testuser/proj/node_modules'', [''pkg'']),
      (''/home/testuser/proj/node_modules/pkg'', [''node_modules'']),
      (''/home/testuser/proj/node_modules/pkg/node_modules'', [])]"


text \<open>
  A home directory with one project in the global DerivedData directory and two
  empty scan roots.
\<close>

definition derived_fs :: filesystem where
  "derived_fs = directories_fs 1700000000000
     [(''/home/testuser/Library/Developer/Xcode/DerivedData'', [''App-abcde'']),
      (''/home/testuser/Library/Developer/Xcode/DerivedData/App-abcde'', []),
      (''/home/testuser/code'', []),
      (''/home/testuser/work'', [])]"

section \<open>Deduplication of the selections\<close>

lemma dedupe_add_paths:
  "set (map ci_path (dedupe_add byPath item)) = insert (item_path item) (set (map ci_path byPath))"
  by (auto simp: dedupe_add_def Let_def)

lemma dedupe_add_distinct:
  "distinct (map ci_path byPath) \<Longrightarrow> distinct (map ci_path (dedupe_add byPath item))"
  by (auto simp: dedupe_add_def Let_def)

lemma foldl_dedupe_add_distinct:
  "distinct (map ci_path byPath) \<Longrightarrow> distinct (map ci_path (foldl dedupe_add byPath its))"
  by (induction its arbitrary: byPath) (simp_all add: dedupe_add_distinct)

lemma foldl_dedupe_add_paths:
  "set (map ci_path (foldl dedupe_add byPath its))
     = set (map ci_path byPath) \<union> set (map item_path its)"
proof (induction its arbitrary: byPath)
  case Nil
  show ?case by simp
next
  case (Cons a its)
  show ?case unfolding foldl_Cons Cons.IH dedupe_add_paths by auto
qed

lemma flatten_as_fold:
  "foldl dedupe_selection byPath selections = foldl dedupe_add byPath (all_items selections)"
proof (induction selections arbitrary: byPath)
  case Nil
  show ?case by (simp add: all_items_def)
next
  case (Cons sel sels)
  have "all_items (sel # sels)
          = (case sel_items sel of None \<Rightarrow> [] | Some its \<Rightarrow> its) @ all_items sels"
    by (simp add: all_items_def)
  then show ?case
    using Cons.IH by (simp add: dedupe_selection_def split: option.splits)
qed

text \<open>
  An entry that the loop adds has a path the map did not hold, and is made from the
  first item of the remaining input with that path.
\<close>

lemma foldl_dedupe_add_first:
  assumes "e \<in> set (foldl dedupe_add byPath its)" and "e \<notin> set byPath"
  shows "ci_path e \<notin> set (map ci_path byPath) \<and>
         (\<exists>i. find (\<lambda>i. item_path i = ci_path e) its = Some i \<and> e = entry_of i)"
  using assms
proof (induction its arbitrary: byPath)
  case Nil
  then show ?case by simp
next
  case (Cons a its)
  show ?case
  proof (cases "e \<in> set (dedupe_add byPath a)")
    case True
    with Cons.prems(2) have "e = entry_of a" and "item_path a \<notin> set (map ci_path byPath)"
      by (auto simp: dedupe_add_def Let_def entry_of_def split: if_splits)
    then show ?thesis by (simp add: entry_of_def)
  next
    case False
    from Cons.prems(1) have "e \<in> set (foldl dedupe_add (dedupe_add byPath a) its)" by simp
    from Cons.IH[OF this False] obtain i where
      notin: "ci_path e \<notin> set (map ci_path (dedupe_add byPath a))" and
      i: "find (\<lambda>i. item_path i = ci_path e) its = Some i" "e = entry_of i" by blast
    from notin have "item_path a \<noteq> ci_path e" and "ci_path e \<notin> set (map ci_path byPath)"
      unfolding dedupe_add_paths by auto
    with i show ?thesis by simp
  qed
qed

lemma flattenAndDedupe_fold:
  "flattenAndDedupe selections = foldl dedupe_add [] (all_items selections)"
  by (simp add: flattenAndDedupe_def flatten_as_fold)

lemma flattenAndDedupe_distinct: "distinct (map ci_path (flattenAndDedupe selections))"
  unfolding flattenAndDedupe_fold by (rule foldl_dedupe_add_distinct) simp

lemma flattenAndDedupe_paths:
  "set (map ci_path (flattenAndDedupe selections)) = set (map item_path (all_items selections))"
  unfolding flattenAndDedupe_fold foldl_dedupe_add_paths by simp

text \<open>
  Claim C6. \<^verbatim>\<open>flattenAndDedupe(selections)\<close> never returns two entries with the same
  path, whichever selections a path appears in; it returns an entry for every selected
  path; and the size and the age of an entry are those of the first item with that
  path in selection order, a missing size being read as 0.
\<close>

theorem flattenAndDedupe_first_wins:
  "distinct (map ci_path (flattenAndDedupe selections)) \<and>
   set (map ci_path (flattenAndDedupe selections)) = set (map item_path (all_items selections)) \<and>
   (\<forall>e \<in> set (flattenAndDedupe selections).
      \<exists>i. find (\<lambda>i. item_path i = ci_path e) (all_items selections) = Some i \<and>
          ci_size e = size_or_zero (item_size i) \<and>
          ci_lastModifiedDays e = item_lastModifiedDays i)"
proof -
  have "\<exists>i. find (\<lambda>i. item_path i = ci_path e) (all_items selections) = Some i \<and>
          ci_size e = size_or_zero (item_size i) \<and>
          ci_lastModifiedDays e = item_lastModifiedDays i"
    if "e \<in> set (flattenAndDedupe selections)" for e
  proof -
    from that have "e \<in> set (foldl dedupe_add [] (all_items selections))"
      by (simp only: flattenAndDedupe_fold)
    from foldl_dedupe_add_first[OF this] obtain i where
      "find (\<lambda>i. item_path i = ci_path e) (all_items selections) = Some i" "e = entry_of i"
      by auto
    then show ?thesis by (auto simp: entry_of_def)
  qed
  with flattenAndDedupe_distinct flattenAndDedupe_paths show ?thesis by blast
qed

theorem flattenAndDedupe_first_wins_witness:
  "flattenAndDedupe overlapping_selections =
     [\<lparr>ci_path = ''/home/testuser/a/node_modules'', ci_size = 10,
       ci_lastModifiedDays = Some (Days 200)\<rparr>,
      \<lparr>ci_path = ''/home/testuser/b/node_modules'', ci_size = 0,
       ci_lastModifiedDays = Some Infinity\<rparr>,
      \<lparr>ci_path = ''/home/testuser/c/node_modules'', ci_size = 30,
       ci_lastModifiedDays = Some (Days 3)\<rparr>] \<and>
   distinct (map ci_path (flattenAndDedupe overlapping_selections)) \<and>
   (\<exists>i. find (\<lambda>i. item_path i = ''/home/testuser/a/node_modules'')
            (all_items overlapping_selections) = Some i \<and>
        size_or_zero (item_size i) = 10 \<and> item_lastModifiedDays i = Some (Days 200))"
proof -
  have v: "flattenAndDedupe overlapping_selections =
     [\<lparr>ci_path = ''/home/testuser/a/node_modules'', ci_size = 10,
       ci_lastModifiedDays = Some (Days 200)\<rparr>,
      \<lparr>ci_path = ''/home/testuser/b/node_modules'', ci_size = 0,
       ci_lastModifiedDays = Some Infinity\<rparr>,
      \<lparr>ci_path = ''/home/testuser/c/node_modules'', ci_size = 30,
       ci_lastModifiedDays = Some (Days 3)\<rparr>]"
    by code_simp
  let ?e = "\<lparr>ci_path = ''/home/testuser/a/node_modules'', ci_size = 10,
       ci_lastModifiedDays = Some (Days 200)\<rparr>"
  have mem: "?e \<in> set (flattenAndDedupe overlapping_selections)"
    unfolding v by simp
  note inst = flattenAndDedupe_first_wins[of overlapping_selections]
  from inst have d: "distinct (map ci_path (flattenAndDedupe overlapping_selections))"
    by (rule conjunct1)
  from inst have "\<forall>e \<in> set (flattenAndDedupe overlapping_selections).
      \<exists>i. find (\<lambda>i. item_path i = ci_path e) (all_items overlapping_selections) = Some i \<and>
          ci_size e = size_or_zero (item_size i) \<and>
          ci_lastModifiedDays e = item_lastModifiedDays i"
    by (intro conjunct2[OF conjunct2[OF inst]])
  from this[rule_format, OF mem] obtain i where
    "find (\<lambda>i. item_path i = ''/home/testuser/a/node_modules'')
       (all_items overlapping_selections) = Some i"
    "size_or_zero (item_size i) = 10" "item_lastModifiedDays i = Some (Days 200)"
    by auto
  then have "\<exists>i. find (\<lambda>i. item_path i = ''/home/testuser/a/node_modules'')
            (all_items overlapping_selections) = Some i \<and>
        size_or_zero (item_size i) = 10 \<and> item_lastModifiedDays i = Some (Days 200)"
    by blast
  with v d show ?thesis by (simp only: simp_thms)
qed

section \<open>The cleanup loop\<close>

lemma cleanup_step_results:
  "\<exists>out. fst (snd (cleanup_step trash cwd homedir dryRun (t, res, w) item)) = res @ [out] \<and>
         out_path out = ci_path item"
  by (auto simp: cleanup_step_def success_outcome_def failure_outcome_def
           split: prod.splits sum.splits)

lemma cleanup_loop_results:
  "\<exists>outs. fst (snd (foldl (cleanup_step trash cwd homedir dryRun) (t, res, w) items)) = res @ outs \<and>
          map out_path outs = map ci_path items"
proof (induction items arbitrary: t res w)
  case Nil
  show ?case by simp
next
  case (Cons item items)
  obtain t' res' w' where st: "cleanup_step trash cwd homedir dryRun (t, res, w) item = (t', res', w')"
    by (cases "cleanup_step trash cwd homedir dryRun (t, res, w) item") auto
  from cleanup_step_results[of trash cwd homedir dryRun t res w item] st
  obtain out where out: "res' = res @ [out]" "out_path out = ci_path item" by auto
  from Cons.IH[of t' res' w'] obtain outs where
    outs: "fst (snd (foldl (cleanup_step trash cwd homedir dryRun) (t', res', w') items)) = res' @ outs"
      "map out_path outs = map ci_path items" by blast
  have "fst (snd (foldl (cleanup_step trash cwd homedir dryRun) (t, res, w) (item # items)))
        = res @ (out # outs)"
    using st out outs by simp
  moreover have "map out_path (out # outs) = map ci_path (item # items)"
    using out outs by simp
  ultimately show ?case by blast
qed

lemma performCleanup_results:
  "results (fst (performCleanup trash cwd homedir selections dryRun w)) =
     fst (snd (foldl (cleanup_step trash cwd homedir dryRun) (0, [], w) (flattenAndDedupe selections)))"
  by (simp add: performCleanup_def Let_def split: prod.splits)

text \<open>
  Claim C10. For every list of selections and either value of \<^verbatim>\<open>dryRun\<close>,
  \<^verbatim>\<open>performCleanup\<close> returns one outcome per deduplicated path, in the order of
  \<^verbatim>\<open>flattenAndDedupe(selections)\<close> and carrying that item's path, and
  \<^verbatim>\<open>successCount + failCount\<close> is the number of deduplicated paths.
\<close>

theorem performCleanup_one_outcome_per_item:
  "map out_path (results (fst (performCleanup trash cwd homedir selections dryRun w)))
     = map ci_path (flattenAndDedupe selections) \<and>
   length (results (fst (performCleanup trash cwd homedir selections dryRun w)))
     = length (flattenAndDedupe selections) \<and>
   successCount (fst (performCleanup trash cwd homedir selections dryRun w))
     + failCount (fst (performCleanup trash cwd homedir selections dryRun w))
     = length (flattenAndDedupe selections)"
proof -
  let ?r = "fst (performCleanup trash cwd homedir selections dryRun w)"
  from cleanup_loop_results[of trash cwd homedir dryRun 0 "[]" w "flattenAndDedupe selections"]
  have paths: "map out_path (results ?r) = map ci_path (flattenAndDedupe selections)"
    by (auto simp: performCleanup_results)
  then have len: "length (results ?r) = length (flattenAndDedupe selections)"
    by (metis length_map)
  have "successCount ?r + failCount ?r = length (results ?r)"
    by (simp add: performCleanup_def Let_def sum_length_filter_compl split: prod.splits)
  with paths len show ?thesis by simp
qed

lemma dry_run_loop:
  "foldl (cleanup_step trash cwd homedir True) (t, res, w) items =
     (t + sum_list (map ci_size items), res @ map success_outcome items, w)"
  by (induction items arbitrary: t res) (simp_all add: cleanup_step_def)

text \<open>
  A dry run never calls the trash primitive: whatever the primitive is, the world is
  returned as it was given.
\<close>

lemma performCleanup_dry_run_no_trash:
  "snd (performCleanup trash cwd homedir selections True w) = w"
  by (simp add: performCleanup_def Let_def dry_run_loop)

text \<open>
  Claim C2 says that a dry run never invokes the trash primitive, still exercises the
  validation of the safety gate for every selected item, and returns as
  \<^verbatim>\<open>totalFreed\<close> the sum of the sizes of the deduplicated items. It fails on the
  code, in its second part: the dry-run branch of \<^verbatim>\<open>performCleanup\<close> does not call
  the gate. For the selection of \<^verbatim>\<open>/etc/foo\<close> with 7 bytes, which the gate rejects,
  the dry run reports a success and 7 bytes freed, and leaves the world alone; the
  real run of the same selection reports the failure of the gate and frees nothing,
  without a call of the trash primitive.
\<close>

theorem performCleanup_dry_run_skips_gate:
  "validatePathForDeletion example_cwd example_home ''/etc/foo'' = Inl outside_home_error \<and>
   performCleanup logging_trash example_cwd example_home outside_selections True [] =
     (\<lparr>totalFreed = 7,
       results = [\<lparr>out_path = ''/etc/foo'', out_size = Some 7, out_success = True,
                   out_error = None\<rparr>],
       successCount = 1, failCount = 0\<rparr>, []) \<and>
   performCleanup logging_trash example_cwd example_home outside_selections False [] =
     (\<lparr>totalFreed = 0,
       results = [\<lparr>out_path = ''/etc/foo'', out_size = None, out_success = False,
                   out_error = Some ''Can only delete within home directory''\<rparr>],
       successCount = 0, failCount = 1\<rparr>, [])"
  by code_simp

text \<open>
  The gate rejects the path, and the dry run reports it as a success all the same,
  taken from the theorem.
\<close>

theorem performCleanup_dry_run_skips_gate_witness:
  "validatePathForDeletion example_cwd example_home ''/etc/foo'' = Inl outside_home_error \<and>
   performCleanup logging_trash example_cwd example_home outside_selections True [] =
     (\<lparr>totalFreed = 7,
       results = [\<lparr>out_path = ''/etc/foo'', out_size = Some 7, out_success = True,
                   out_error = None\<rparr>],
       successCount = 1, failCount = 0\<rparr>, [])"
  using performCleanup_dry_run_skips_gate by blast

lemma cleanup_loop_nth:
  assumes "i < length items"
  shows "fst (snd (foldl (cleanup_step trash cwd homedir dryRun) (0, [], w) items)) ! i =
         last (fst (snd (cleanup_step trash cwd homedir dryRun
                 (foldl (cleanup_step trash cwd homedir dryRun) (0, [], w) (take i items))
                 (items ! i))))"
proof -
  let ?step = "cleanup_step trash cwd homedir dryRun"
  let ?mid = "foldl ?step (0, [], w) (take (Suc i) items)"
  have split: "items = take (Suc i) items @ drop (Suc i) items" by simp
  have full: "foldl ?step (0, [], w) items = foldl ?step ?mid (drop (Suc i) items)"
    by (subst split) (simp only: foldl_append)
  obtain t res w' where mid: "?mid = (t, res, w')" by (cases ?mid) auto
  from cleanup_loop_results[of trash cwd homedir dryRun 0 "[]" w "take (Suc i) items"] mid
  have "length res = Suc i" using assms
    by (metis append_Nil fst_conv snd_conv length_map length_take min.absorb2 Suc_leI)
  moreover from cleanup_loop_results[of trash cwd homedir dryRun t res w' "drop (Suc i) items"]
  obtain outs where "fst (snd (foldl ?step (t, res, w') (drop (Suc i) items))) = res @ outs"
    by blast
  ultimately have "fst (snd (foldl ?step (0, [], w) items)) ! i = last res"
    using full mid by (cases res rule: rev_cases) (simp_all add: nth_append)
  moreover have "?mid = ?step (foldl ?step (0, [], w) (take i items)) (items ! i)"
    using assms by (simp add: take_Suc_conv_app_nth)
  then have "res = fst (snd (?step (foldl ?step (0, [], w) (take i items)) (items ! i)))"
    using mid by (metis fst_conv snd_conv)
  ultimately show ?thesis by simp
qed

text \<open>
  Claim C5. In a real cleanup (\<^verbatim>\<open>dryRun\<close> false) every deduplicated item gets its
  outcome, at its own index, whatever happened to the items before it. For an item
  that passes the safety gate the outcome follows what the trash primitive answers
  for its resolved path in the world the loop has reached: a success is a success; an
  error with code \<^verbatim>\<open>EACCES\<close> is the failure \<^verbatim>\<open>Permission denied:\<close> followed by the
  path; an error with code \<^verbatim>\<open>ENOENT\<close> is a success; any other error is a failure
  with the error's own message.
\<close>

theorem performCleanup_classifies_failures:
  assumes "i < length (flattenAndDedupe selections)"
  shows "out_path (results (fst (performCleanup trash cwd homedir selections False w)) ! i)
           = ci_path (flattenAndDedupe selections ! i) \<and>
         (validatePathForDeletion cwd homedir (ci_path (flattenAndDedupe selections ! i)) = Inr () \<longrightarrow>
            results (fst (performCleanup trash cwd homedir selections False w)) ! i =
              (case fst (trash (world_before trash cwd homedir (flattenAndDedupe selections) i w)
                          (resolve cwd (ci_path (flattenAndDedupe selections ! i)))) of
                 Inr _ \<Rightarrow> success_outcome (flattenAndDedupe selections ! i)
               | Inl err \<Rightarrow>
                   if err_code err = Some ''EACCES''
                   then failure_outcome (flattenAndDedupe selections ! i)
                          (new_Error (''Permission denied: '' @ ci_path (flattenAndDedupe selections ! i)))
                   else if err_code err = Some ''ENOENT''
                   then success_outcome (flattenAndDedupe selections ! i)
                   else failure_outcome (flattenAndDedupe selections ! i) err))"
proof -
  let ?items = "flattenAndDedupe selections"
  let ?step = "cleanup_step trash cwd homedir False"
  let ?before = "foldl ?step (0, [], w) (take i ?items)"
  obtain t res wi where before: "?before = (t, res, wi)" by (cases ?before) auto
  then have wi: "world_before trash cwd homedir ?items i w = wi"
    by (simp add: world_before_def)
  have nth: "results (fst (performCleanup trash cwd homedir selections False w)) ! i =
             last (fst (snd (?step (t, res, wi) (?items ! i))))"
    using cleanup_loop_nth[OF assms, of trash cwd homedir False w] before
    by (simp add: performCleanup_results)
  have p: "out_path (last (fst (snd (?step (t, res, wi) (?items ! i))))) = ci_path (?items ! i)"
    using cleanup_step_results[of trash cwd homedir False t res wi "?items ! i"] by auto
  have c: "last (fst (snd (?step (t, res, wi) (?items ! i)))) =
              (case fst (trash wi (resolve cwd (ci_path (?items ! i)))) of
                 Inr _ \<Rightarrow> success_outcome (?items ! i)
               | Inl err \<Rightarrow>
                   if err_code err = Some ''EACCES''
                   then failure_outcome (?items ! i)
                          (new_Error (''Permission denied: '' @ ci_path (?items ! i)))
                   else if err_code err = Some ''ENOENT''
                   then success_outcome (?items ! i)
                   else failure_outcome (?items ! i) err)"
    if "validatePathForDeletion cwd homedir (ci_path (?items ! i)) = Inr ()"
    using that
    by (cases "trash wi (resolve cwd (ci_path (?items ! i)))")
       (auto simp: cleanup_step_def safeDelete_def Let_def split: sum.splits)
  show ?thesis using nth p c wi by simp
qed


theorem performCleanup_classifies_failures_witness:
  "results (fst (performCleanup logging_trash example_cwd example_home
                   overlapping_selections False [])) ! 0 =
     \<lparr>out_path = ''/home/testuser/a/node_modules'', out_size = None, out_success = False,
      out_error = Some ''Permission denied: /home/testuser/a/node_modules''\<rparr> \<and>
   results (fst (performCleanup logging_trash example_cwd example_home
                   overlapping_selections False [])) ! 1 =
     \<lparr>out_path = ''/home/testuser/b/node_modules'', out_size = Some 0, out_success = True,
      out_error = None\<rparr> \<and>
   results (fst (performCleanup logging_trash example_cwd example_home
                   overlapping_selections False [])) ! 2 =
     \<lparr>out_path = ''/home/testuser/c/node_modules'', out_size = None, out_success = False,
      out_error = Some ''unknown error''\<rparr>"
proof -
  let ?items = "flattenAndDedupe overlapping_selections"
  let ?res = "results (fst (performCleanup logging_trash example_cwd example_home
                   overlapping_selections False []))"
  have len: "0 < length ?items" "1 < length ?items" "2 < length ?items"
    by code_simp+
  have gate:
    "validatePathForDeletion example_cwd example_home (ci_path (?items ! 0)) = Inr ()"
    "validatePathForDeletion example_cwd example_home (ci_path (?items ! 1)) = Inr ()"
    "validatePathForDeletion example_cwd example_home (ci_path (?items ! 2)) = Inr ()"
    by code_simp+
  have answer:
    "fst (logging_trash (world_before logging_trash example_cwd example_home ?items 0 [])
           (resolve example_cwd (ci_path (?items ! 0))))
       = Inl \<lparr>err_code = Some ''EACCES'', err_message = ''access denied''\<rparr>"
    "fst (logging_trash (world_before logging_trash example_cwd example_home ?items 1 [])
           (resolve example_cwd (ci_path (?items ! 1))))
       = Inl \<lparr>err_code = Some ''ENOENT'', err_message = ''not found''\<rparr>"
    "fst (logging_trash (world_before logging_trash example_cwd example_home ?items 2 [])
           (resolve example_cwd (ci_path (?items ! 2))))
       = Inl \<lparr>err_code = None, err_message = ''unknown error''\<rparr>"
    by code_simp+
  have item:
    "failure_outcome (?items ! 0) (new_Error (''Permission denied: '' @ ci_path (?items ! 0)))
       = \<lparr>out_path = ''/home/testuser/a/node_modules'', out_size = None, out_success = False,
          out_error = Some ''Permission denied: /home/testuser/a/node_modules''\<rparr>"
    "success_outcome (?items ! 1)
       = \<lparr>out_path = ''/home/testuser/b/node_modules'', out_size = Some 0, out_success = True,
          out_error = None\<rparr>"
    "failure_outcome (?items ! 2) \<lparr>err_code = None, err_message = ''unknown error''\<rparr>
       = \<lparr>out_path = ''/home/testuser/c/node_modules'', out_size = None, out_success = False,
          out_error = Some ''unknown error''\<rparr>"
    by code_simp+
  have r0: "?res ! 0 = failure_outcome (?items ! 0)
                         (new_Error (''Permission denied: '' @ ci_path (?items ! 0)))"
    using performCleanup_classifies_failures[OF len(1), of logging_trash example_cwd
            example_home "[]", THEN conjunct2, rule_format, OF gate(1)]
    unfolding answer(1) by simp
  have r1: "?res ! 1 = success_outcome (?items ! 1)"
    using performCleanup_classifies_failures[OF len(2), of logging_trash example_cwd
            example_home "[]", THEN conjunct2, rule_format, OF gate(2)]
    unfolding answer(2) by simp
  have r2: "?res ! 2 = failure_outcome (?items ! 2)
                         \<lparr>err_code = None, err_message = ''unknown error''\<rparr>"
    using performCleanup_classifies_failures[OF len(3), of logging_trash example_cwd
            example_home "[]", THEN conjunct2, rule_format, OF gate(3)]
    unfolding answer(3) by simp
  show ?thesis
    unfolding r0 r1 r2 item by (simp only: simp_thms)
qed

section \<open>Normal forms of paths\<close>

lemma split_sep_not_Nil: "split_sep p \<noteq> []"
  by (induction p) (auto split: list.splits)

lemma split_sep_slash_free: "s \<in> set (split_sep p) \<Longrightarrow> CHR ''/'' \<notin> set s"
  by (induction p arbitrary: s) (auto split: list.splits if_splits)

lemma split_sep_append: "split_sep (a @ CHR ''/'' # b) = split_sep a @ split_sep b"
  by (induction a) (auto split: list.splits simp: split_sep_not_Nil)

lemma split_sep_no_slash: "CHR ''/'' \<notin> set s \<Longrightarrow> split_sep s = [s]"
  by (induction s) auto

lemma split_join:
  "segs \<noteq> [] \<Longrightarrow> \<forall>s \<in> set segs. CHR ''/'' \<notin> set s \<Longrightarrow> split_sep (join_sep segs) = segs"
proof (induction segs rule: join_sep.induct)
  case 1
  then show ?case by simp
next
  case (2 s)
  then show ?case by (simp add: split_sep_no_slash)
next
  case (3 s t ss)
  then show ?case by (simp add: split_sep_append split_sep_no_slash)
qed

lemma join_sep_snoc: "join_sep (xs @ [x]) = (if xs = [] then x else join_sep xs @ CHR ''/'' # x)"
  by (induction xs rule: join_sep.induct) auto

lemma join_sep_empty: "\<forall>s \<in> set segs. s \<noteq> [] \<Longrightarrow> join_sep segs = [] \<longleftrightarrow> segs = []"
  by (induction segs rule: join_sep.induct) auto

lemma normalize_step_keep:
  "seg = [] \<or> seg = ''.'' \<Longrightarrow> normalize_step b stack seg = stack"
  by simp

lemma normalize_step_pop:
  "normalize_step False stack ''..'' = (if stack = [] \<or> hd stack = ''..'' then stack else tl stack)"
  by (cases stack) simp_all

lemma normalize_step_push:
  "seg \<noteq> [] \<Longrightarrow> seg \<noteq> ''.'' \<Longrightarrow> seg \<noteq> ''..'' \<Longrightarrow> normalize_step b stack seg = seg # stack"
  by simp

lemma normalize_step_clean:
  assumes "\<forall>s \<in> set stack. clean_segment s" and "CHR ''/'' \<notin> set seg"
  shows "\<forall>s \<in> set (normalize_step False stack seg). clean_segment s"
proof -
  consider "seg = [] \<or> seg = ''.''" | "seg = ''..''"
    | "seg \<noteq> []" "seg \<noteq> ''.''" "seg \<noteq> ''..''" by blast
  then show ?thesis
  proof cases
    case 1
    then have "normalize_step False stack seg = stack" by (rule normalize_step_keep)
    then show ?thesis using assms(1) by (simp del: normalize_step.simps)
  next
    case 2
    have "set (tl stack) \<subseteq> set stack" by (cases stack) auto
    then show ?thesis using assms(1) unfolding 2 normalize_step_pop by auto
  next
    case 3
    then have "clean_segment seg" using assms(2) by (simp add: clean_segment_def)
    moreover have "normalize_step False stack seg = seg # stack"
      using 3 by (rule normalize_step_push)
    ultimately show ?thesis using assms(1) by (simp del: normalize_step.simps)
  qed
qed

lemma normalize_fold_push:
  "\<forall>s \<in> set segs. clean_segment s \<Longrightarrow> foldl (normalize_step b) stack segs = rev segs @ stack"
proof (induction segs arbitrary: stack)
  case Nil
  show ?case by simp
next
  case (Cons a segs)
  then have "normalize_step b stack a = a # stack"
    by (intro normalize_step_push) (simp_all add: clean_segment_def)
  then show ?case using Cons by (simp del: normalize_step.simps)
qed

lemma normalize_fold_clean:
  "\<forall>s \<in> set stack. clean_segment s \<Longrightarrow> \<forall>s \<in> set segs. CHR ''/'' \<notin> set s \<Longrightarrow>
   \<forall>s \<in> set (foldl (normalize_step False) stack segs). clean_segment s"
proof (induction segs arbitrary: stack)
  case Nil
  then show ?case by simp
next
  case (Cons a segs)
  have "\<forall>s \<in> set (normalize_step False stack a). clean_segment s"
    using Cons.prems by (intro normalize_step_clean) auto
  then show ?case using Cons by (simp del: normalize_step.simps)
qed

lemma kept_clean: "\<forall>s \<in> set (kept p). clean_segment s"
  unfolding kept_def using normalize_fold_clean[of "[]" "split_sep p"] split_sep_slash_free
  by auto

lemma resolve_absolute:
  assumes "isAbsolute p"
  shows "resolve cwd p = CHR ''/'' # join_sep (kept p)"
proof -
  from assms have ne: "p \<noteq> []" by (auto simp: isAbsolute_def)
  have "split_sep (p @ ''/'') = split_sep p @ [[]]"
    using split_sep_append[of p "[]"] by simp
  then have "foldl (normalize_step False) [] (split_sep (p @ ''/'')) = foldl (normalize_step False) [] (split_sep p)"
    by simp
  then show ?thesis using assms ne by (simp add: resolve_def normalizeString_def kept_def Let_def)
qed

lemma resolve_of_rendered:
  assumes "\<forall>s \<in> set segs. clean_segment s"
  shows "resolve cwd (CHR ''/'' # join_sep segs) = CHR ''/'' # join_sep segs"
proof -
  have abs: "isAbsolute (CHR ''/'' # join_sep segs)" by (simp add: isAbsolute_def)
  have "kept (CHR ''/'' # join_sep segs) = segs"
  proof (cases "segs = []")
    case True
    then show ?thesis by (simp add: kept_def)
  next
    case False
    have "split_sep (CHR ''/'' # join_sep segs) = [] # segs"
      using split_join[OF False] assms by (simp add: clean_segment_def)
    then show ?thesis
      using normalize_fold_push[OF assms, of False "[]"] by (simp add: kept_def)
  qed
  with resolve_absolute[OF abs] show ?thesis by simp
qed

lemma join_absolute:
  assumes "isAbsolute h" and "clean_segment name"
  shows "join h name = CHR ''/'' # join_sep (kept h @ [name])"
proof -
  from assms have ne: "h \<noteq> []" "name \<noteq> []" by (auto simp: isAbsolute_def clean_segment_def)
  have abs: "isAbsolute (h @ ''/'' @ name)" using assms(1) by (cases h) (auto simp: isAbsolute_def)
  have slash_free: "CHR ''/'' \<notin> set name" using assms(2) by (simp add: clean_segment_def)
  have "last name \<noteq> CHR ''/''"
  proof
    assume "last name = CHR ''/''"
    moreover have "last name \<in> set name" using ne(2) by (rule last_in_set)
    ultimately show False using slash_free by simp
  qed
  then have lastc: "last (h @ ''/'' @ name) \<noteq> CHR ''/''"
    using ne by simp
  have "split_sep (h @ ''/'' @ name) = split_sep h @ [name]"
    using split_sep_append[of h name] assms(2) by (simp add: split_sep_no_slash clean_segment_def)
  then have "foldl (normalize_step False) [] (split_sep (h @ ''/'' @ name)) =
             name # foldl (normalize_step False) [] (split_sep h)"
    using assms(2) by (simp add: clean_segment_def)
  then have norm: "normalizeString (h @ ''/'' @ name) False = join_sep (kept h @ [name])"
    by (simp add: normalizeString_def kept_def)
  have "join_sep (kept h @ [name]) \<noteq> []"
    using ne by (simp add: join_sep_snoc)
  then show ?thesis using ne abs lastc norm
    by (simp add: join_def normalize_def Let_def)
qed

lemma resolve_join_child:
  assumes "isAbsolute h" and "clean_segment name"
  shows "resolve cwd (join h name) = child (resolve cwd h) name"
proof -
  have c: "\<forall>s \<in> set (kept h @ [name]). clean_segment s"
    using kept_clean[of h] assms(2) by auto
  have "resolve cwd (join h name) = CHR ''/'' # join_sep (kept h @ [name])"
    unfolding join_absolute[OF assms] by (rule resolve_of_rendered[OF c])
  moreover have "join_sep (kept h) = [] \<longleftrightarrow> kept h = []"
    using kept_clean[of h] by (intro join_sep_empty) (auto simp: clean_segment_def)
  ultimately show ?thesis
    by (simp add: resolve_absolute[OF assms(1)] child_def join_sep_snoc)
qed

section \<open>Age metadata\<close>

text \<open>
  Claim C9, as the code has it. The age is the \<^verbatim>\<open>Infinity\<close> sentinel exactly when
  \<^verbatim>\<open>fs.stat\<close> fails on the path; otherwise it is \<open>\<lfloor>(now - mtime) / 1 day\<rfloor>\<close>, which is an
  integer and is non-negative exactly when the modification time is not later than
  \<open>now\<close>.
\<close>

theorem getMetadata_age:
  "(lastModifiedDays (getMetadata fs now dirPath) = Infinity \<longleftrightarrow> isl (fs_stat fs dirPath)) \<and>
   (\<forall>st. fs_stat fs dirPath = Inr st \<longrightarrow>
      lastModifiedDays (getMetadata fs now dirPath)
        = Days ((now - st_mtime st) div 86400000) \<and>
      86400000 * ((now - st_mtime st) div 86400000) \<le> now - st_mtime st \<and>
      now - st_mtime st < 86400000 * ((now - st_mtime st) div 86400000) + 86400000 \<and>
      (0 \<le> (now - st_mtime st) div 86400000 \<longleftrightarrow> st_mtime st \<le> now))"
proof -
  have a: "lastModifiedDays (getMetadata fs now dirPath) = Infinity \<longleftrightarrow> isl (fs_stat fs dirPath)"
    by (cases "fs_stat fs dirPath") (simp_all add: getMetadata_def getLastModified_def)
  have b: "lastModifiedDays (getMetadata fs now dirPath) = Days ((now - st_mtime st) div 86400000)"
    if "fs_stat fs dirPath = Inr st" for st
    using that by (simp add: getMetadata_def getLastModified_def)
  have d: "86400000 * (d div 86400000) \<le> d \<and> d < 86400000 * (d div 86400000) + 86400000 \<and>
           (0 \<le> d div 86400000 \<longleftrightarrow> 0 \<le> d)" for d :: int
    by (simp add: pos_imp_zdiv_nonneg_iff) presburger
  have c: "86400000 * ((now - st_mtime st) div 86400000) \<le> now - st_mtime st \<and>
      now - st_mtime st < 86400000 * ((now - st_mtime st) div 86400000) + 86400000 \<and>
      (0 \<le> (now - st_mtime st) div 86400000 \<longleftrightarrow> st_mtime st \<le> now)" for st :: stats
    using d[of "now - st_mtime st"] by simp
  show ?thesis using a b c by blast
qed

theorem getMetadata_age_witness:
  "fs_stat nested_fs ''/home/testuser/proj/node_modules'' = Inr (directory_stats 1700000000000) \<and>
   lastModifiedDays (getMetadata nested_fs 1700259200005 ''/home/testuser/proj/node_modules'')
     = Days 3 \<and>
   isl (fs_stat nested_fs ''/home/testuser/gone'') \<and>
   lastModifiedDays (getMetadata nested_fs 1700259200005 ''/home/testuser/gone'') = Infinity"
proof -
  have readable:
    "fs_stat nested_fs ''/home/testuser/proj/node_modules'' = Inr (directory_stats 1700000000000)"
    by code_simp
  have unreadable: "isl (fs_stat nested_fs ''/home/testuser/gone'')"
    by code_simp
  have days: "(1700259200005 - st_mtime (directory_stats 1700000000000)) div 86400000 = (3::int)"
    by code_simp
  note age = getMetadata_age[of nested_fs 1700259200005 "''/home/testuser/proj/node_modules''"]
  note gone = getMetadata_age[of nested_fs 1700259200005 "''/home/testuser/gone''"]
  from age readable have
    "lastModifiedDays (getMetadata nested_fs 1700259200005 ''/home/testuser/proj/node_modules'')
       = Days ((1700259200005 - st_mtime (directory_stats 1700000000000)) div 86400000)"
    by blast
  then have
    "lastModifiedDays (getMetadata nested_fs 1700259200005 ''/home/testuser/proj/node_modules'')
       = Days 3"
    by (simp only: days)
  moreover from gone unreadable have
    "lastModifiedDays (getMetadata nested_fs 1700259200005 ''/home/testuser/gone'') = Infinity"
    by blast
  ultimately show ?thesis using readable unreadable by blast
qed

text \<open>
  The claim as the specification states it fails: a directory whose modification time
  is one millisecond later than \<open>now\<close> has the age \<open>-1\<close>.
\<close>

theorem getMetadata_age_negative:
  "fs_stat nested_fs ''/home/testuser/proj/node_modules'' = Inr (directory_stats 1700000000000) \<and>
   lastModifiedDays (getMetadata nested_fs 1699999999999 ''/home/testuser/proj/node_modules'')
     = Days (- 1)"
  by code_simp

section \<open>The safety gate\<close>

lemma resolve_not_Nil: "resolve cwd p \<noteq> []"
  by (simp add: resolve_def Let_def)

lemma clean_protected_names: "name \<in> set protected_names \<Longrightarrow> clean_segment name"
  by (auto simp: protected_names_def clean_segment_def)

lemma child_longer: "name \<noteq> [] \<Longrightarrow> length dir < length (child dir name)"
  by (simp add: child_def)

lemma prefix_child: "prefix dir (child dir name)"
  by (simp add: child_def)

lemma child_inject: "child dir a = child dir b \<Longrightarrow> a = b"
  by (simp add: child_def split: if_splits)

lemma getProtectedPaths_absolute:
  assumes "isAbsolute homedir"
  shows "getProtectedPaths cwd homedir
           = resolve cwd homedir # map (child (resolve cwd homedir)) protected_names"
  using resolve_join_child[OF assms clean_protected_names, of _ cwd]
  by (simp add: getProtectedPaths_def protected_names_def)

lemma protectedPaths_filtered:
  assumes "isAbsolute homedir"
  shows "filter (\<lambda>p. p \<noteq> resolve cwd homedir) (getProtectedPaths cwd homedir)
           = map (child (resolve cwd homedir)) protected_names"
proof -
  have "child (resolve cwd homedir) name \<noteq> resolve cwd homedir"
    if "name \<in> set protected_names" for name
    using child_longer[of name "resolve cwd homedir"] clean_protected_names[OF that]
    by (auto simp: clean_segment_def)
  then have "filter (\<lambda>p. p \<noteq> resolve cwd homedir) (map (child (resolve cwd homedir)) protected_names)
        = map (child (resolve cwd homedir)) protected_names"
    by (simp add: filter_id_conv)
  then show ?thesis by (simp add: getProtectedPaths_absolute[OF assms])
qed

lemma error_kinds_differ:
  "invalid_path_error \<noteq> outside_home_error"
  "invalid_path_error \<noteq> protected_directory_error p"
  "outside_home_error \<noteq> protected_directory_error p"
  by (simp_all add: invalid_path_error_def outside_home_error_def protected_directory_error_def
        new_Error_def)

text \<open>The gate behind its first guard, for an absolute home directory.\<close>

lemma validate_absolute_home:
  assumes "isAbsolute homedir" and "dirPath \<noteq> []" and "dirPath \<noteq> ''/''"
  shows "validatePathForDeletion cwd homedir dirPath =
           (if \<not> prefix (resolve cwd homedir) (resolve cwd dirPath)
               \<or> resolve cwd dirPath = resolve cwd homedir
            then Inl outside_home_error
            else if resolve cwd dirPath \<in> set (map (child (resolve cwd homedir)) protected_names)
            then Inl (protected_directory_error dirPath)
            else Inr ())"
  using assms(2,3)
  by (simp add: validatePathForDeletion_def Let_def protectedPaths_filtered[OF assms(1)]
        list_ex_iff del: set_map)

text \<open>
  Claim C4, as the code has it. The empty path and the path \<^verbatim>\<open>/\<close> itself fail with
  the invalid-path error. Any other path whose resolved form is the filesystem root
  fails too, but with the outside-home error.
\<close>

theorem validate_invalid_path:
  "(dirPath = [] \<or> dirPath = ''/''
      \<longrightarrow> validatePathForDeletion cwd homedir dirPath = Inl invalid_path_error) \<and>
   (dirPath \<noteq> [] \<and> dirPath \<noteq> ''/'' \<and> resolve cwd dirPath = ''/''
      \<longrightarrow> validatePathForDeletion cwd homedir dirPath = Inl outside_home_error)"
proof -
  have "validatePathForDeletion cwd homedir dirPath = Inl outside_home_error"
    if guard: "dirPath \<noteq> []" "dirPath \<noteq> ''/''" and root: "resolve cwd dirPath = ''/''"
  proof -
    have "resolve cwd homedir = ''/''" if "prefix (resolve cwd homedir) ''/''"
      using that resolve_not_Nil[of cwd homedir] by (cases "resolve cwd homedir") auto
    then have "\<not> prefix (resolve cwd homedir) (resolve cwd dirPath)
               \<or> resolve cwd dirPath = resolve cwd homedir"
      unfolding root by auto
    then show ?thesis using guard by (simp add: validatePathForDeletion_def Let_def)
  qed
  then show ?thesis by (auto simp: validatePathForDeletion_def)
qed

theorem validate_invalid_path_witness:
  "validatePathForDeletion example_cwd example_home [] = Inl invalid_path_error \<and>
   validatePathForDeletion example_cwd example_home ''/'' = Inl invalid_path_error \<and>
   resolve example_cwd ''/home/..'' = ''/'' \<and>
   validatePathForDeletion example_cwd example_home ''/home/..'' = Inl outside_home_error"
proof -
  have root: "resolve example_cwd ''/home/..'' = ''/''" by code_simp
  have guard: "''/home/..'' \<noteq> []" "''/home/..'' \<noteq> ''/''" by simp_all
  from validate_invalid_path[of "[]" example_cwd example_home]
  have a: "validatePathForDeletion example_cwd example_home [] = Inl invalid_path_error"
    by blast
  from validate_invalid_path[of "''/''" example_cwd example_home]
  have b: "validatePathForDeletion example_cwd example_home ''/'' = Inl invalid_path_error"
    by blast
  from validate_invalid_path[of "''/home/..''" example_cwd example_home] root guard
  have c: "validatePathForDeletion example_cwd example_home ''/home/..'' = Inl outside_home_error"
    by blast
  from a b c root show ?thesis by blast
qed

text \<open>
  The claim as the specification states it fails: \<^verbatim>\<open>//\<close> resolves to the filesystem
  root and is rejected with the outside-home error, not with the invalid-path error.
\<close>

theorem validate_root_spelling_not_invalid:
  "resolve example_cwd ''//'' = ''/'' \<and>
   validatePathForDeletion example_cwd example_home ''//'' = Inl outside_home_error \<and>
   outside_home_error \<noteq> invalid_path_error"
  by code_simp

lemma strictly_under_prefix:
  assumes "strictly_under dir p"
  shows "prefix dir p \<and> p \<noteq> dir"
proof -
  from assms obtain rest where "p = (if dir = ''/'' then dir else dir @ ''/'') @ rest" "rest \<noteq> []"
    unfolding strictly_under_def strict_prefix_def prefix_def by auto
  then show ?thesis by (auto split: if_splits)
qed

text \<open>
  The gate tests the text of the resolved path. Behind the guard for the empty path
  and \<^verbatim>\<open>/\<close>, it fails with the outside-home error exactly when the resolved path
  does not begin with the characters of the resolved home directory, or is the
  resolved home directory itself; a path strictly below the home directory is not
  refused with that error.
\<close>

lemma validate_outside_home_textual:
  assumes "dirPath \<noteq> []" and "dirPath \<noteq> ''/''"
  shows "(validatePathForDeletion cwd homedir dirPath = Inl outside_home_error
            \<longleftrightarrow> \<not> prefix (resolve cwd homedir) (resolve cwd dirPath)
                \<or> resolve cwd dirPath = resolve cwd homedir) \<and>
         (strictly_under (resolve cwd homedir) (resolve cwd dirPath)
            \<longrightarrow> validatePathForDeletion cwd homedir dirPath \<noteq> Inl outside_home_error)"
proof -
  have "validatePathForDeletion cwd homedir dirPath \<noteq> Inl outside_home_error"
    if "prefix (resolve cwd homedir) (resolve cwd dirPath)"
      and "resolve cwd dirPath \<noteq> resolve cwd homedir"
    using that assms error_kinds_differ(3)[of dirPath]
    by (simp add: validatePathForDeletion_def Let_def)
  moreover have "validatePathForDeletion cwd homedir dirPath = Inl outside_home_error"
    if "\<not> prefix (resolve cwd homedir) (resolve cwd dirPath)
        \<or> resolve cwd dirPath = resolve cwd homedir"
    using that assms by (simp add: validatePathForDeletion_def Let_def)
  ultimately show ?thesis
    using strictly_under_prefix[of "resolve cwd homedir" "resolve cwd dirPath"] by blast
qed

text \<open>
  Claim C1 says that the gate fails with the outside-home error for every path whose
  resolved form is not a strict descendant of the home directory, so for every path
  that is not under home. It fails on the code: with the home directory
  \<^verbatim>\<open>/home/testuser\<close>, the path \<^verbatim>\<open>/home/testuser2/proj/node_modules\<close> is its own
  resolved form, does not lie below the home directory, and passes the gate, because
  its text begins with the text of the home directory.
\<close>

theorem validate_accepts_textual_sibling:
  "resolve example_cwd example_home = ''/home/testuser'' \<and>
   resolve example_cwd ''/home/testuser2/proj/node_modules''
     = ''/home/testuser2/proj/node_modules'' \<and>
   \<not> strictly_under (resolve example_cwd example_home)
       (resolve example_cwd ''/home/testuser2/proj/node_modules'') \<and>
   validatePathForDeletion example_cwd example_home ''/home/testuser2/proj/node_modules'' = Inr ()"
  by code_simp

text \<open>The two facts of this input that contradict the claim, taken from the theorem.\<close>

theorem validate_accepts_textual_sibling_witness:
  "\<not> strictly_under (resolve example_cwd example_home)
       (resolve example_cwd ''/home/testuser2/proj/node_modules'') \<and>
   validatePathForDeletion example_cwd example_home ''/home/testuser2/proj/node_modules'' = Inr ()"
  using validate_accepts_textual_sibling by blast

text \<open>
  Claim C3, as the code has it. The home directory is an absolute path. For every
  path that is not empty, the gate fails with the protected-directory error exactly
  when the resolved path is \<^verbatim>\<open>Desktop\<close>, \<^verbatim>\<open>Documents\<close>, \<^verbatim>\<open>Downloads\<close>, \<^verbatim>\<open>.ssh\<close> or
  \<^verbatim>\<open>Library\<close> directly under the resolved home directory; and a path whose resolved
  form lies strictly below one of these five directories passes the gate.
\<close>

theorem validate_protected_directory:
  assumes "isAbsolute homedir" and "dirPath \<noteq> []"
  shows "(validatePathForDeletion cwd homedir dirPath = Inl (protected_directory_error dirPath)
            \<longleftrightarrow> resolve cwd dirPath \<in> set (map (child (resolve cwd homedir)) protected_names)) \<and>
         (\<forall>name \<in> set protected_names.
            strictly_under (child (resolve cwd homedir) name) (resolve cwd dirPath)
              \<longrightarrow> validatePathForDeletion cwd homedir dirPath = Inr ())"
proof (cases "dirPath = ''/''")
  case True
  let ?H = "resolve cwd homedir"
  have root: "resolve cwd dirPath = ''/''" unfolding True by code_simp
  have long: "1 < length (child ?H name)" if "name \<in> set protected_names" for name
    using child_longer[of name ?H] clean_protected_names[OF that] resolve_not_Nil[of cwd homedir]
    by (cases ?H) (auto simp: clean_segment_def)
  have notin: "''/'' \<notin> set (map (child ?H) protected_names)"
  proof
    assume "''/'' \<in> set (map (child ?H) protected_names)"
    then obtain name where "name \<in> set protected_names" "child ?H name = ''/''" by auto
    with long[of name] show False by simp
  qed
  have notunder: "\<not> strictly_under (child ?H name) ''/''" if "name \<in> set protected_names" for name
    using long[OF that] strictly_under_prefix[of "child ?H name" "''/''"]
    by (cases "child ?H name") auto
  have "validatePathForDeletion cwd homedir dirPath = Inl invalid_path_error"
    using True by (simp add: validatePathForDeletion_def)
  then show ?thesis
    using notin notunder error_kinds_differ(2)[of dirPath] unfolding root by auto
next
  case False
  let ?H = "resolve cwd homedir"
  let ?R = "resolve cwd dirPath"
  note v = validate_absolute_home[OF assms False, of cwd]
  have inside: "prefix ?H ?R \<and> ?R \<noteq> ?H"
    if "?R \<in> set (map (child ?H) protected_names)"
  proof -
    from that obtain name where n: "name \<in> set protected_names" "?R = child ?H name" by auto
    with child_longer[of name ?H] clean_protected_names[OF n(1)] prefix_child[of ?H name]
    show ?thesis by (auto simp: clean_segment_def)
  qed
  have iff: "validatePathForDeletion cwd homedir dirPath = Inl (protected_directory_error dirPath)
            \<longleftrightarrow> ?R \<in> set (map (child ?H) protected_names)"
    unfolding v using inside error_kinds_differ(3)[of dirPath] by auto
  have pass: "validatePathForDeletion cwd homedir dirPath = Inr ()"
    if n: "name \<in> set protected_names" and under: "strictly_under (child ?H name) ?R" for name
  proof -
    have ne: "child ?H name \<noteq> ''/''"
      using child_longer[of name ?H] clean_protected_names[OF n] resolve_not_Nil[of cwd homedir]
      by (cases ?H) (auto simp: clean_segment_def)
    from under ne obtain rest where R: "?R = child ?H name @ ''/'' @ rest"
      unfolding strictly_under_def strict_prefix_def prefix_def by auto
    have p: "prefix ?H ?R" unfolding R using prefix_child[of ?H name] by (metis prefix_prefix)
    have l: "length ?H < length ?R"
      unfolding R using child_longer[of name ?H] clean_protected_names[OF n]
      by (simp add: clean_segment_def)
    have "?R \<noteq> child ?H other" if o: "other \<in> set protected_names" for other
    proof
      assume eq: "?R = child ?H other"
      then have "name @ ''/'' @ rest = other"
        unfolding R child_def by (simp split: if_splits)
      then have "CHR ''/'' \<in> set other" by auto
      with clean_protected_names[OF o] show False by (simp add: clean_segment_def)
    qed
    then have "?R \<notin> set (map (child ?H) protected_names)" by auto
    with p l show ?thesis unfolding v by auto
  qed
  from iff pass show ?thesis by blast
qed

theorem validate_protected_directory_witness:
  "isAbsolute example_home \<and>
   resolve example_cwd ''/home/testuser/Desktop''
     \<in> set (map (child (resolve example_cwd example_home)) protected_names) \<and>
   validatePathForDeletion example_cwd example_home ''/home/testuser/Desktop''
     = Inl (protected_directory_error ''/home/testuser/Desktop'') \<and>
   strictly_under (child (resolve example_cwd example_home) ''Desktop'')
     (resolve example_cwd ''/home/testuser/Desktop/work/proj/node_modules'') \<and>
   validatePathForDeletion example_cwd example_home
     ''/home/testuser/Desktop/work/proj/node_modules'' = Inr ()"
proof -
  have abs: "isAbsolute example_home" by code_simp
  have ne: "''/home/testuser/Desktop'' \<noteq> []"
           "''/home/testuser/Desktop/work/proj/node_modules'' \<noteq> []"
    by simp_all
  have mem: "resolve example_cwd ''/home/testuser/Desktop''
               \<in> set (map (child (resolve example_cwd example_home)) protected_names)"
    by code_simp
  have name: "''Desktop'' \<in> set protected_names" by code_simp
  have under: "strictly_under (child (resolve example_cwd example_home) ''Desktop'')
                 (resolve example_cwd ''/home/testuser/Desktop/work/proj/node_modules'')"
    by code_simp
  from validate_protected_directory[OF abs ne(1), of example_cwd] mem
  have a: "validatePathForDeletion example_cwd example_home ''/home/testuser/Desktop''
             = Inl (protected_directory_error ''/home/testuser/Desktop'')"
    by blast
  from validate_protected_directory[OF abs ne(2), of example_cwd] name under
  have b: "validatePathForDeletion example_cwd example_home
             ''/home/testuser/Desktop/work/proj/node_modules'' = Inr ()"
    by blast
  from abs mem a under b show ?thesis by blast
qed

text \<open>
  The claim as the specification states it fails: with \<^verbatim>\<open>Desktop\<close> as the working
  directory the empty path resolves to that protected directory, and the gate rejects
  it with the invalid-path error, not with the protected-directory error.
\<close>

theorem validate_empty_path_in_protected_cwd:
  "resolve ''/home/testuser/Desktop'' []
     \<in> set (map (child (resolve ''/home/testuser/Desktop'' example_home)) protected_names) \<and>
   validatePathForDeletion ''/home/testuser/Desktop'' example_home [] = Inl invalid_path_error \<and>
   invalid_path_error \<noteq> protected_directory_error []"
  by code_simp

section \<open>The walk and the scanners\<close>

text \<open>The ways a call of \<open>walk\<close> returns without a throw.\<close>

lemma walk_Inr_cases:
  assumes "walk fs callback maxDepth ignoreDirs skipDescendingInto currentPath depth acc = Inr acc'"
  obtains
    (unchanged) "acc' = acc"
  | (visited) st where "fs_lstat fs currentPath = Inr st" "acc' = callback acc currentPath st"
  | (descended) st entries where
      "\<not> maxDepth < depth" "fs_lstat fs currentPath = Inr st"
      "st_kind st \<noteq> SymbolicLink" "st_kind st \<noteq> RegularFile" "\<not> st_kind st \<noteq> Directory"
      "\<not> list_ex (\<lambda>ignore. basename currentPath = ignore \<or> suffix ignore currentPath) ignoreDirs"
      "basename currentPath \<notin> set skipDescendingInto"
      "fs_readdir fs currentPath = Inr entries"
      "walk_entries fs callback maxDepth ignoreDirs skipDescendingInto currentPath entries
         (depth + 1) (callback acc currentPath st) = Inr acc'"
  using assms
  by (subst (asm) walk.simps) (auto split: if_splits sum.splits)

text \<open>What every call of the callback preserves holds of the state the walk returns.\<close>

lemma walk_invariant:
  fixes callback :: "'a \<Rightarrow> string \<Rightarrow> stats \<Rightarrow> 'a"
  shows "(\<And>a p st. I a \<Longrightarrow> I (callback a p st)) \<Longrightarrow> I acc \<Longrightarrow>
         walk fs callback maxDepth ign skip cur depth acc = Inr acc' \<Longrightarrow> I acc'"
    and "(\<And>a p st. I a \<Longrightarrow> I (callback a p st)) \<Longrightarrow> I acc \<Longrightarrow>
         walk_entries fs callback maxDepth ign skip cur entries depth acc = Inr acc' \<Longrightarrow> I acc'"
proof (induction fs callback maxDepth ign skip cur depth acc
         and fs callback maxDepth ign skip cur entries depth acc
       arbitrary: acc' and acc' rule: walk_walk_entries.induct)
  case (1 fs callback maxDepth ignoreDirs skipDescendingInto currentPath depth acc)
  note step = "1.prems"(1) and inv = "1.prems"(2)
  from "1.prems"(3) show ?case
  proof (cases rule: walk_Inr_cases)
    case unchanged
    with inv show ?thesis by simp
  next
    case (visited st)
    from step[OF inv, of currentPath st] show ?thesis
      unfolding visited(2) .
  next
    case (descended st entries)
    from step[OF inv, of currentPath st] have "I (callback acc currentPath st)" .
    from "1.IH"[OF descended(1-8) step this descended(9)] show ?thesis .
  qed
next
  case (2 fs callback maxDepth ignoreDirs skipDescendingInto currentPath depth acc)
  then show ?case by simp
next
  case (3 fs callback maxDepth ignoreDirs skipDescendingInto currentPath entry entries depth acc)
  note step = "3.prems"(1) and inv = "3.prems"(2)
  from "3.prems"(3) obtain mid where
    first: "walk fs callback maxDepth ignoreDirs skipDescendingInto (join currentPath entry) depth acc
              = Inr mid" and
    rest: "walk_entries fs callback maxDepth ignoreDirs skipDescendingInto currentPath entries depth mid
              = Inr acc'"
    by (auto split: sum.splits)
  from "3.IH"(1)[OF step inv first] have "I mid" .
  from "3.IH"(2)[OF first step this rest] show ?case .
qed


lemma found_callback_mono: "set acc \<subseteq> set (found_callback targetName acc p st)"
  by (auto simp: found_callback_def)

lemma walk_found_mono:
  assumes "walk fs (found_callback targetName) maxDepth ign skip cur depth acc = Inr acc'"
  shows "set acc \<subseteq> set acc'"
proof -
  have step: "set acc \<subseteq> set (found_callback targetName a p st)" if "set acc \<subseteq> set a" for a p st
    using that found_callback_mono[of a targetName p st] by (rule subset_trans)
  have start: "set acc \<subseteq> set acc" by (rule subset_refl)
  show ?thesis
    by (rule walk_invariant(1)[where I = "\<lambda>a. set acc \<subseteq> set a", OF step start assms])
qed










section \<open>The Xcode scanner over several roots\<close>

text \<open>
  A call of \<^verbatim>\<open>scan\<close> that starts when the flag is set leaves the global directory
  alone: its items are not marked as DerivedData and none lies in the global
  directory. This is what a second call gives when the first one was awaited.
\<close>

lemma xcode_scan_after_flag:
  assumes "xs_globalScanned scanner"
    and "xcode_scan fs now basePath scanner = (Inr r, scanner')"
  shows "\<forall>it \<in> set (sr_items r).
           \<not> fi_isDerivedData it \<and> \<not> prefix (derivedDataPath scanner) (fi_path it)"
proof -
  from assms obtain buildDirs where
    "sr_items r = map (make_item fs now False)
       (filter (\<lambda>dir. \<not> prefix (derivedDataPath scanner) dir \<and> isXcodeProject fs (dirname dir))
          buildDirs)"
    by (auto simp: xcode_scan_def xcode_scan_start_def xcode_scan_resume_def Let_def
          make_result_def split: sum.splits)
  then show ?thesis by (auto simp: make_item_def)
qed

text \<open>
  In \<^verbatim>\<open>runAllScans\<close> every call is started before any is resumed, so every call
  finds the flag clear, however many roots there are.
\<close>

lemma runAllScans_xcode_all_started_clear:
  "map (\<lambda>p. (p, xcode_scan_start (new_XcodeScanner homedir))) paths = map (\<lambda>p. (p, True)) paths"
  by (simp add: xcode_scan_start_def new_XcodeScanner_def)

text \<open>
  Claim C7 says that, however many roots a run covers, the global DerivedData
  directory is scanned once, so that each of its children appears at most once among
  the merged items. It fails on the code: with two roots, the one project of the
  global DerivedData directory appears twice among the merged items, and its size is
  counted twice; with one root it appears once.
\<close>

theorem runAllScans_xcode_two_roots:
  "runAllScans_xcode derived_fs 1700259200005 ''/home/testuser''
     [''/home/testuser/code'', ''/home/testuser/work''] =
     \<lparr>sr_type = ''xcode_build'',
      sr_items =
        [\<lparr>fi_path = ''/home/testuser/Library/Developer/Xcode/DerivedData/App-abcde'',
          fi_size = 2048, fi_lastModifiedDays = Days 3, fi_isDerivedData = True\<rparr>,
         \<lparr>fi_path = ''/home/testuser/Library/Developer/Xcode/DerivedData/App-abcde'',
          fi_size = 2048, fi_lastModifiedDays = Days 3, fi_isDerivedData = True\<rparr>],
      sr_totalSize = 4096, sr_count = 2\<rparr>"
  by code_simp

lemma runAllScans_xcode_one_root:
  "runAllScans_xcode derived_fs 1700259200005 ''/home/testuser'' [''/home/testuser/code''] =
     \<lparr>sr_type = ''xcode_build'',
      sr_items =
        [\<lparr>fi_path = ''/home/testuser/Library/Developer/Xcode/DerivedData/App-abcde'',
          fi_size = 2048, fi_lastModifiedDays = Days 3, fi_isDerivedData = True\<rparr>],
      sr_totalSize = 2048, sr_count = 1\<rparr>"
  by code_simp

text \<open>
  The same for every filesystem and every number of roots. What a resumed call
  returns depends on the flag it read at its start, not on the flag as it is when the
  call is resumed, so every call started with the flag clear reports the global
  directory.
\<close>

lemma xcode_scan_resume_flag:
  "fst (xcode_scan_resume fs now p clear (scanner\<lparr>xs_globalScanned := b\<rparr>))
     = fst (xcode_scan_resume fs now p clear scanner)"
  by (simp add: xcode_scan_resume_def derivedDataPath_def Let_def split: sum.splits)

lemma xcode_scan_resume_scanner:
  "snd (xcode_scan_resume fs now p clear scanner) = scanner \<or>
   snd (xcode_scan_resume fs now p clear scanner) = scanner\<lparr>xs_globalScanned := True\<rparr>"
  by (simp add: xcode_scan_resume_def Let_def split: sum.splits)

lemma resume_all_started_clear:
  "fst (foldl (\<lambda>(rs, sc) (p, flagWasClear).
              case xcode_scan_resume fs now p flagWasClear sc of
                (Inl _, sc') \<Rightarrow> (rs @ [empty_result], sc')
              | (Inr r, sc') \<Rightarrow> (rs @ [r], sc'))
         (rs0, scanner\<lparr>xs_globalScanned := b\<rparr>) (map (\<lambda>p. (p, True)) paths))
     = rs0 @ map (scan_started_clear fs now scanner) paths"
proof (induction paths arbitrary: rs0 b)
  case Nil
  show ?case by simp
next
  case (Cons p paths)
  let ?sc = "scanner\<lparr>xs_globalScanned := b\<rparr>"
  obtain res sc' where step: "xcode_scan_resume fs now p True ?sc = (res, sc')"
    by (cases "xcode_scan_resume fs now p True ?sc") auto
  from xcode_scan_resume_scanner[where fs=fs and now=now and p=p and clear=True and scanner="?sc"] step
  have "sc' = scanner\<lparr>xs_globalScanned := b\<rparr> \<or> sc' = scanner\<lparr>xs_globalScanned := True\<rparr>"
    by auto
  then obtain b' where sc': "sc' = scanner\<lparr>xs_globalScanned := b'\<rparr>" by blast
  from step xcode_scan_resume_flag[where fs=fs and now=now and p=p and clear=True and scanner=scanner and b=b]
  have res: "fst (xcode_scan_resume fs now p True scanner) = res" by simp
  show ?case
    using Cons.IH[where b=b'] step sc' res
    by (cases res) (simp_all add: scan_started_clear_def)
qed

lemma runAllScans_xcode_per_root:
  "sr_items (runAllScans_xcode fs now homedir paths)
     = concat (map (\<lambda>p. sr_items (scan_started_clear fs now (new_XcodeScanner homedir) p)) paths)"
proof -
  have "new_XcodeScanner homedir = (new_XcodeScanner homedir)\<lparr>xs_globalScanned := False\<rparr>"
    by (simp add: new_XcodeScanner_def)
  then have "fst (resume_all fs now (map (\<lambda>p. (p, True)) paths) (new_XcodeScanner homedir))
               = map (scan_started_clear fs now (new_XcodeScanner homedir)) paths"
    unfolding resume_all_def
    using resume_all_started_clear[where fs=fs and now=now and ?rs0.0="[]"
            and scanner="new_XcodeScanner homedir" and b=False and paths=paths]
    by simp
  then show ?thesis
    by (simp add: runAllScans_xcode_def Let_def runAllScans_xcode_all_started_clear
          mergeResults_def make_result_def o_def)
qed

text \<open>
  When the global directory exists, each root whose walk does not throw contributes
  all the projects of the global directory once more.
\<close>

lemma scan_started_clear_global:
  assumes "pathExists fs (derivedDataPath scanner)"
    and "fst (xcode_scan_resume fs now p True scanner) = Inr r"
  shows "filter fi_isDerivedData (sr_items (scan_started_clear fs now scanner p))
           = derivedData_items fs now (derivedDataPath scanner)"
proof -
  have derived: "filter fi_isDerivedData (derivedData_items fs now d) = derivedData_items fs now d"
    for d
    by (simp add: derivedData_items_def make_item_def filter_map o_def split: sum.splits)
  have local: "filter fi_isDerivedData (map (make_item fs now False) dirs) = []" for dirs
    by (simp add: make_item_def filter_map o_def)
  from assms show ?thesis
    by (auto simp: scan_started_clear_def xcode_scan_resume_def Let_def make_result_def
          derived local split: sum.splits)
qed

end
